theory Spec2Isabelle
  imports Complex_Main "HOL-Library.Word" "HOL-Library.Multiset"
begin

section \<open>Shared data model\<close>

text \<open>
  JavaScript numbers that hold scores, weights and vector components are modelled as
  \<^typ>\<open>real\<close>; counts and sizes (\<open>topK\<close>, \<open>dimension\<close>, \<open>documentCount\<close>) as \<^typ>\<open>nat\<close>;
  strings as \<^typ>\<open>string\<close>, a list of code units below 256. Every \<open>throw\<close> of the source
  is a value \<open>Inl e\<close> of the result type.
\<close>

datatype error =
    DimensionMismatch      \<comment> \<open>\<open>Error('Vectors must have the same dimension')\<close>\<close>
  | DataSourceRequired     \<comment> \<open>\<open>Error('Data source is required')\<close>\<close>
  | LLMRequired            \<comment> \<open>\<open>Error('LLM is required')\<close>\<close>
  | TypeError              \<comment> \<open>property read on \<open>undefined\<close>\<close>
  | UpstreamFailure        \<comment> \<open>a rejected promise of the data source or the LLM\<close>

subsection \<open>\<open>Map\<close>: insertion-ordered, \<open>set\<close> on a present key keeps its position\<close>

fun mapSet :: "'k \<Rightarrow> 'v \<Rightarrow> ('k \<times> 'v) list \<Rightarrow> ('k \<times> 'v) list" where
  "mapSet k v [] = [(k, v)]"
| "mapSet k v (p # ps) = (if fst p = k then (k, v) # ps else p # mapSet k v ps)"

definition mapGet :: "('k \<times> 'v) list \<Rightarrow> 'k \<Rightarrow> 'v option" where
  "mapGet m k = map_of m k"

definition mapHas :: "('k \<times> 'v) list \<Rightarrow> 'k \<Rightarrow> bool" where
  "mapHas m k = (mapGet m k \<noteq> None)"

definition mapSize :: "('k \<times> 'v) list \<Rightarrow> nat" where
  "mapSize m = length m"

definition mapKeys :: "('k \<times> 'v) list \<Rightarrow> 'k list" where
  "mapKeys m = map fst m"

definition mapValues :: "('k \<times> 'v) list \<Rightarrow> 'v list" where
  "mapValues m = map snd m"

section \<open>\<open>LocalEmbeddings\<close> (src/src/embeddings/local.js)\<close>

record LocalEmbeddings =
  dimension :: nat
  vocabulary :: "(string \<times> nat) list"
  idf :: "(string \<times> real) list"
  documentCount :: nat
  initializedE :: bool

text \<open>The constructor: \<open>config.dimension || 384\<close>, two empty maps, count 0.\<close>

definition newLocalEmbeddings :: "nat option \<Rightarrow> LocalEmbeddings" where
  "newLocalEmbeddings cfgDimension =
     \<lparr>dimension = (case cfgDimension of None \<Rightarrow> 384 | Some d \<Rightarrow> if d = 0 then 384 else d),
      vocabulary = [], idf = [], documentCount = 0, initializedE = False\<rparr>"

subsection \<open>\<open>tokenize\<close>\<close>

text \<open>
  \<open>text.toLowerCase().replace(/[^\w\s]/g, ' ').split(/\s+/).filter(t => t.length > 1)\<close>.
  On code units below 256, \<open>\w\<close> is \<open>[A-Za-z0-9_]\<close> and \<open>\s\<close> is TAB, LF, VT, FF, CR,
  space and U+00A0. \<open>toLowerCase\<close> maps a code unit of 128 and above to one of 128 and
  above again, which \<open>replace\<close> then turns into a space (or which is U+00A0 and stays a
  separator), so only the ASCII letters are lowered here.
\<close>

definition toLowerChar :: "char \<Rightarrow> char" where
  "toLowerChar c =
     (let n = (of_char c :: nat) in if 65 \<le> n \<and> n \<le> 90 then char_of (n + 32) else c)"

definition toLowerCase :: "string \<Rightarrow> string" where
  "toLowerCase s = map toLowerChar s"

definition isWordChar :: "char \<Rightarrow> bool" where
  "isWordChar c =
     (let n = (of_char c :: nat)
      in (65 \<le> n \<and> n \<le> 90) \<or> (97 \<le> n \<and> n \<le> 122) \<or> (48 \<le> n \<and> n \<le> 57) \<or> n = 95)"

definition isSpace :: "char \<Rightarrow> bool" where
  "isSpace c = (let n = (of_char c :: nat) in (9 \<le> n \<and> n \<le> 13) \<or> n = 32 \<or> n = 160)"

definition replaceNonWord :: "string \<Rightarrow> string" where
  "replaceNonWord s = map (\<lambda>c. if isWordChar c \<or> isSpace c then c else CHR '' '') s"

text \<open>
  \<open>split(/\s+/)\<close>: the pieces between maximal runs of white space, with an empty piece
  before a leading run and after a trailing one. \<open>inRun\<close> says that the previous code
  unit was white space; \<open>cur\<close> is the current piece, reversed.
\<close>

fun splitLoop :: "bool \<Rightarrow> string \<Rightarrow> string \<Rightarrow> string list" where
  "splitLoop inRun cur [] = [rev cur]"
| "splitLoop inRun cur (c # cs) =
     (if isSpace c then (if inRun then splitLoop True cur cs else rev cur # splitLoop True [] cs)
      else splitLoop False (c # cur) cs)"

definition splitWhitespace :: "string \<Rightarrow> string list" where
  "splitWhitespace s = splitLoop False [] s"

definition tokenize :: "string \<Rightarrow> string list" where
  "tokenize text =
     filter (\<lambda>token. length token > 1) (splitWhitespace (replaceNonWord (toLowerCase text)))"

subsection \<open>\<open>hashString\<close>\<close>

text \<open>
  \<open>hash = ((hash << 5) - hash) + char; hash = hash & hash\<close>: the shift and the \<open>&\<close> are
  32-bit operations and the subtraction and addition between them are exact, so one
  round is 32-bit wrap-around arithmetic; the result is read as a signed integer.
\<close>

definition hashStep :: "32 word \<Rightarrow> char \<Rightarrow> 32 word" where
  "hashStep hash c = (push_bit 5 hash - hash) + of_char c"

definition hashString :: "string \<Rightarrow> int" where
  "hashString str = sint (foldl hashStep 0 str)"

subsection \<open>\<open>normalize\<close>, \<open>embed\<close>\<close>

definition normalize :: "real list \<Rightarrow> real list" where
  "normalize vector =
     (let norm = sqrt (foldl (\<lambda>sum val. sum + val * val) 0 vector)
      in if norm = 0 then vector else map (\<lambda>val. val / norm) vector)"

text \<open>
  The number by which \<open>normalize\<close> divides every component (line 142), or \<open>None\<close> when
  line 141 returns the vector as it is.
\<close>

definition normalizeDivisor :: "real list \<Rightarrow> real option" where
  "normalizeDivisor vector =
     (let norm = sqrt (foldl (\<lambda>sum val. sum + val * val) 0 vector)
      in if norm = 0 then None else Some norm)"

text \<open>\<open>tf.set(token, (tf.get(token) || 0) + 1)\<close> for every token, in order.\<close>

definition termFrequency :: "string list \<Rightarrow> (string \<times> nat) list" where
  "termFrequency tokens =
     foldl (\<lambda>tf token. mapSet token ((case mapGet tf token of None \<Rightarrow> 0 | Some n \<Rightarrow> n) + 1) tf)
       [] tokens"

text \<open>\<open>Math.max(...tf.values(), 1)\<close>.\<close>

definition maxTf :: "(string \<times> nat) list \<Rightarrow> nat" where
  "maxTf tf = foldr max (mapValues tf) 1"

text \<open>\<open>this.idf.get(term) || 1\<close>: an absent (or zero) weight is replaced by 1.\<close>

definition idfOrOne :: "LocalEmbeddings \<Rightarrow> string \<Rightarrow> real" where
  "idfOrOne e term = (case mapGet (idf e) term of None \<Rightarrow> 1 | Some w \<Rightarrow> if w = 0 then 1 else w)"

text \<open>
  The hashing loop of \<open>embed\<close> (lines 98 to 104): every entry of \<open>tf\<close> adds
  \<open>sign * (freq / maxTf) * idfValue\<close> to the bucket \<open>Math.abs(hash) % dimension\<close>.
  The sparse map built before it (lines 84 to 93) is never read and has no effect.
\<close>

definition bucket :: "LocalEmbeddings \<Rightarrow> string \<Rightarrow> nat" where
  "bucket e term = nat \<bar>hashString term\<bar> mod dimension e"

definition hashSign :: "string \<Rightarrow> real" where
  "hashSign term = (if hashString term \<ge> 0 then 1 else - 1)"

fun denseLoop :: "LocalEmbeddings \<Rightarrow> nat \<Rightarrow> (string \<times> nat) list \<Rightarrow> real list \<Rightarrow> real list" where
  "denseLoop e m [] vector = vector"
| "denseLoop e m ((term, freq) # rest) vector =
     denseLoop e m rest
       (vector[bucket e term :=
          vector ! bucket e term + hashSign term * (real freq / real m) * idfOrOne e term])"

definition denseVector :: "LocalEmbeddings \<Rightarrow> string \<Rightarrow> real list" where
  "denseVector e text =
     (let tf = termFrequency (tokenize text)
      in denseLoop e (maxTf tf) tf (replicate (dimension e) 0))"

definition embed :: "LocalEmbeddings \<Rightarrow> string \<Rightarrow> real list" where
  "embed e text = normalize (denseVector e text)"

subsection \<open>\<open>cosineSimilarity\<close>, \<open>findSimilar\<close>\<close>

definition cosineSimilarity :: "real list \<Rightarrow> real list \<Rightarrow> error + real" where
  "cosineSimilarity a b =
     (if length a \<noteq> length b then Inl DimensionMismatch
      else Inr (foldl (\<lambda>dotProduct i. dotProduct + a ! i * b ! i) 0 [0..<length a]))"

record Document =
  id' :: string
  content :: string
  metadata :: "(string \<times> string) list"

record VectorEntry = Document +
  vector :: "real list"

text \<open>
  \<open>documents.map(doc => ({id: doc.id, score: this.cosineSimilarity(queryVector, doc.vector)}))\<close>:
  the first failing call ends the map. A pair \<open>(id, score)\<close> stands for the object
  \<open>{id, score}\<close>.
\<close>

fun scoreAll :: "real list \<Rightarrow> VectorEntry list \<Rightarrow> error + (string \<times> real) list" where
  "scoreAll queryVector [] = Inr []"
| "scoreAll queryVector (doc # docs) =
     (case cosineSimilarity queryVector (vector doc) of
        Inl err \<Rightarrow> Inl err
      | Inr s \<Rightarrow> (case scoreAll queryVector docs of
            Inl err \<Rightarrow> Inl err
          | Inr rest \<Rightarrow> Inr ((id' doc, s) # rest)))"

text \<open>
  \<open>Array.prototype.sort\<close> is a stable sort; with the comparator \<open>cmp\<close>, \<open>a\<close> stays before
  \<open>b\<close> unless \<open>cmp a b > 0\<close>. It is modelled by insertion from the right, which puts an
  element before the elements it does not have to follow.
\<close>

fun insertBy :: "('a \<Rightarrow> 'a \<Rightarrow> real) \<Rightarrow> 'a \<Rightarrow> 'a list \<Rightarrow> 'a list" where
  "insertBy cmp x [] = [x]"
| "insertBy cmp x (y # ys) = (if cmp x y > 0 then y # insertBy cmp x ys else x # y # ys)"

definition sortBy :: "('a \<Rightarrow> 'a \<Rightarrow> real) \<Rightarrow> 'a list \<Rightarrow> 'a list" where
  "sortBy cmp xs = foldr (insertBy cmp) xs []"

definition byScoreDesc :: "(string \<times> real) \<Rightarrow> (string \<times> real) \<Rightarrow> real" where
  "byScoreDesc a b = snd b - snd a"

definition findSimilar ::
  "real list \<Rightarrow> VectorEntry list \<Rightarrow> nat \<Rightarrow> error + (string \<times> real) list" where
  "findSimilar queryVector documents topK =
     (case scoreAll queryVector documents of
        Inl err \<Rightarrow> Inl err
      | Inr scores \<Rightarrow> Inr (take topK (sortBy byScoreDesc scores)))"

subsection \<open>\<open>buildVocabulary\<close>, \<open>initialize\<close>\<close>

text \<open>\<open>new Set(tokens)\<close>: the distinct tokens in the order of their first occurrence.\<close>

definition newSet :: "'a list \<Rightarrow> 'a list" where
  "newSet xs = foldl (\<lambda>s x. if x \<in> set s then s else s @ [x]) [] xs"

text \<open>
  The body of the inner loop: \<open>docFreq.set(token, (docFreq.get(token) || 0) + 1)\<close>, then
  \<open>if (!this.vocabulary.has(token)) this.vocabulary.set(token, this.vocabulary.size)\<close>.
\<close>

definition countToken ::
  "(string \<times> nat) list \<times> (string \<times> nat) list \<Rightarrow> string \<Rightarrow>
   (string \<times> nat) list \<times> (string \<times> nat) list" where
  "countToken st token =
     (case st of (docFreq, vocab) \<Rightarrow>
        (mapSet token ((case mapGet docFreq token of None \<Rightarrow> 0 | Some n \<Rightarrow> n) + 1) docFreq,
         if \<not> mapHas vocab token then mapSet token (mapSize vocab) vocab else vocab))"

definition countDocument ::
  "(string \<times> nat) list \<times> (string \<times> nat) list \<Rightarrow> string \<Rightarrow>
   (string \<times> nat) list \<times> (string \<times> nat) list" where
  "countDocument st doc = foldl countToken st (newSet (tokenize doc))"

text \<open>\<open>this.idf.set(term, Math.log((this.documentCount + 1) / (df + 1)) + 1)\<close>.\<close>

definition idfWeight :: "nat \<Rightarrow> nat \<Rightarrow> real" where
  "idfWeight n df = ln ((real n + 1) / (real df + 1)) + 1"

definition setIdf :: "nat \<Rightarrow> (string \<times> real) list \<Rightarrow> (string \<times> nat) \<Rightarrow> (string \<times> real) list" where
  "setIdf n idfMap entry = mapSet (fst entry) (idfWeight n (snd entry)) idfMap"

definition buildVocabulary :: "LocalEmbeddings \<Rightarrow> string list \<Rightarrow> LocalEmbeddings" where
  "buildVocabulary e docs =
     (let n = length docs;
          st = foldl countDocument ([], vocabulary e) docs
      in e\<lparr>documentCount := n, vocabulary := snd st, idf := foldl (setIdf n) (idf e) (fst st)\<rparr>)"

definition initializeEmbeddings :: "LocalEmbeddings \<Rightarrow> string list \<Rightarrow> LocalEmbeddings" where
  "initializeEmbeddings e docs =
     (if length docs > 0 then buildVocabulary e docs else e)\<lparr>initializedE := True\<rparr>"

section \<open>\<open>FileDataSource\<close> (second class of src/src/datasources/pinecone.js)\<close>

record FileDataSource =
  documents :: "Document list"
  initializedS :: bool
  chunkSize :: int
  chunkOverlap :: int

text \<open>The constructor: \<open>config.chunkSize || 1000\<close>, \<open>config.chunkOverlap || 200\<close>.\<close>

definition newFileDataSource :: "int option \<Rightarrow> int option \<Rightarrow> FileDataSource" where
  "newFileDataSource cfgChunkSize cfgChunkOverlap =
     \<lparr>documents = [], initializedS = False,
      chunkSize = (case cfgChunkSize of None \<Rightarrow> 1000 | Some c \<Rightarrow> if c = 0 then 1000 else c),
      chunkOverlap = (case cfgChunkOverlap of None \<Rightarrow> 200 | Some c \<Rightarrow> if c = 0 then 200 else c)\<rparr>"

subsection \<open>String primitives used by \<open>chunkText\<close>\<close>

definition trim :: "string \<Rightarrow> string" where
  "trim s = rev (dropWhile isSpace (rev (dropWhile isSpace s)))"

text \<open>\<open>s.slice(start, end)\<close>: a negative index counts from the end of the string.\<close>

definition slice :: "string \<Rightarrow> int \<Rightarrow> int \<Rightarrow> string" where
  "slice s start end =
     (let len = int (length s);
          from = (if start < 0 then max (len + start) 0 else min start len);
          to = (if end < 0 then max (len + end) 0 else min end len)
      in take (nat (to - from)) (drop (nat from) s))"

definition matchAt :: "string \<Rightarrow> string \<Rightarrow> nat \<Rightarrow> bool" where
  "matchAt s t k = (k + length t \<le> length s \<and> take (length t) (drop k s) = t)"

text \<open>
  \<open>s.lastIndexOf(t, position)\<close>: the largest \<open>k\<close> not above \<open>min(max(position, 0), s.length)\<close>
  at which \<open>t\<close> occurs in \<open>s\<close>, or \<open>-1\<close>.
\<close>

fun lastIndexFrom :: "string \<Rightarrow> string \<Rightarrow> nat \<Rightarrow> int" where
  "lastIndexFrom s t 0 = (if matchAt s t 0 then 0 else - 1)"
| "lastIndexFrom s t (Suc k) = (if matchAt s t (Suc k) then int (Suc k) else lastIndexFrom s t k)"

definition lastIndexOf :: "string \<Rightarrow> string \<Rightarrow> int \<Rightarrow> int" where
  "lastIndexOf s t position = lastIndexFrom s t (nat (min (max position 0) (int (length s))))"

subsection \<open>\<open>chunkText\<close>\<close>

definition breakPoints :: "string list" where
  "breakPoints = [[CHR 0x0A, CHR 0x0A], [CHR 0x0A], ''. '', ''! '', ''? '']"

text \<open>
  The \<open>for (const bp of breakPoints)\<close> loop: the first marker whose last occurrence at or
  before \<open>end\<close> lies after \<open>start + chunkSize / 2\<close> moves \<open>end\<close> behind that occurrence.
\<close>

fun findBreak :: "string \<Rightarrow> int \<Rightarrow> int \<Rightarrow> int \<Rightarrow> string list \<Rightarrow> int" where
  "findBreak text start csize end [] = end"
| "findBreak text start csize end (bp # bps) =
     (let lastBreak = lastIndexOf text bp end
      in if real_of_int lastBreak > real_of_int start + real_of_int csize / 2
         then lastBreak + int (length bp)
         else findBreak text start csize end bps)"

text \<open>The end of the window that one iteration of the \<open>while\<close> loop emits.\<close>

definition windowEnd :: "FileDataSource \<Rightarrow> string \<Rightarrow> int \<Rightarrow> int" where
  "windowEnd ds text start =
     (let end = start + chunkSize ds
      in if end < int (length text) then findBreak text start (chunkSize ds) end breakPoints
         else end)"

text \<open>
  The \<open>while (start < text.length)\<close> loop. The first argument bounds the number of
  iterations; \<open>None\<close> says that the bound was reached with the loop still running.
\<close>

fun chunkLoop :: "nat \<Rightarrow> FileDataSource \<Rightarrow> string \<Rightarrow> int \<Rightarrow> string list \<Rightarrow> string list option" where
  "chunkLoop 0 ds text start chunks = (if start < int (length text) then None else Some chunks)"
| "chunkLoop (Suc n) ds text start chunks =
     (if start < int (length text)
      then (let end = windowEnd ds text start
            in chunkLoop n ds text (end - chunkOverlap ds) (chunks @ [trim (slice text start end)]))
      else Some chunks)"

definition chunkText :: "nat \<Rightarrow> FileDataSource \<Rightarrow> string \<Rightarrow> string list option" where
  "chunkText fuel ds text =
     (if int (length text) \<le> chunkSize ds then Some [trim text]
      else map_option (filter (\<lambda>c. length c > 0)) (chunkLoop fuel ds text 0 []))"

subsection \<open>The part of the source that the engine calls\<close>

text \<open>
  \<open>loadDocuments\<close> empties \<open>this.documents\<close> and fills it from the files. What the files
  hold is outside the program: \<open>loaded\<close> is the list they produce, or the failure of
  reading them.
\<close>

definition loadDocuments :: "error + Document list \<Rightarrow> FileDataSource \<Rightarrow> error + FileDataSource" where
  "loadDocuments loaded ds =
     (case loaded of Inl err \<Rightarrow> Inl err | Inr docs \<Rightarrow> Inr (ds\<lparr>documents := docs\<rparr>))"

definition initializeSource :: "error + Document list \<Rightarrow> FileDataSource \<Rightarrow> error + FileDataSource" where
  "initializeSource loaded ds =
     (case loadDocuments loaded ds of
        Inl err \<Rightarrow> Inl err
      | Inr ds' \<Rightarrow> Inr (ds'\<lparr>initializedS := True\<rparr>))"

definition getDocuments :: "FileDataSource \<Rightarrow> Document list" where
  "getDocuments ds = documents ds"

definition getDocumentCount :: "FileDataSource \<Rightarrow> nat" where
  "getDocumentCount ds = length (documents ds)"

text \<open>A document handed to \<open>addDocument\<close>: \<open>id\<close> and \<open>metadata\<close> may be missing.\<close>

record NewDocument =
  newId :: "string option"
  newContent :: string
  newMetadata :: "(string \<times> string) list option"

fun showNat :: "nat \<Rightarrow> string" where
  "showNat n =
     (if n < 10 then [char_of (48 + n)] else showNat (n div 10) @ [char_of (48 + n mod 10)])"

text \<open>\<open>document.id || `doc_${this.documents.length}`\<close>; the empty string is falsy too.\<close>

definition sourceAddDocument :: "FileDataSource \<Rightarrow> NewDocument \<Rightarrow> string \<times> FileDataSource" where
  "sourceAddDocument ds document =
     (let ident = (case newId document of
                     None \<Rightarrow> ''doc_'' @ showNat (length (documents ds))
                   | Some i \<Rightarrow> if i = [] then ''doc_'' @ showNat (length (documents ds)) else i)
      in (ident,
          ds\<lparr>documents := documents ds @
               [\<lparr>id' = ident, content = newContent document,
                 metadata = (case newMetadata document of None \<Rightarrow> [] | Some m \<Rightarrow> m)\<rparr>]\<rparr>))"

section \<open>\<open>RAGEngine\<close> (src/unnamed/part_001)\<close>

record LLM =
  model :: string

record RetrievalResult = Document +
  score :: real

record RAGEngine =
  dataSource :: "FileDataSource option"
  llm :: "LLM option"
  embeddings :: "LocalEmbeddings option"
  topK :: nat
  similarityThreshold :: real
  documentVectors :: "(string \<times> VectorEntry) list"
  initialized :: bool

record EngineConfig =
  cfgDataSource :: "FileDataSource option"
  cfgLlm :: "LLM option"
  cfgEmbeddings :: "LocalEmbeddings option"
  cfgTopK :: "nat option"
  cfgSimilarityThreshold :: "real option"

text \<open>The constructor: \<open>config.topK || 5\<close>, \<open>config.similarityThreshold || 0.3\<close>.\<close>

definition newRAGEngine :: "EngineConfig \<Rightarrow> RAGEngine" where
  "newRAGEngine config =
     \<lparr>dataSource = cfgDataSource config, llm = cfgLlm config, embeddings = cfgEmbeddings config,
      topK = (case cfgTopK config of None \<Rightarrow> 5 | Some k \<Rightarrow> if k = 0 then 5 else k),
      similarityThreshold =
        (case cfgSimilarityThreshold config of None \<Rightarrow> 3 / 10 | Some t \<Rightarrow> if t = 0 then 3 / 10 else t),
      documentVectors = [], initialized = False\<rparr>"

subsection \<open>\<open>buildVectorIndex\<close>, \<open>initialize\<close>, \<open>refresh\<close>, \<open>addDocument\<close>\<close>

text \<open>\<open>this.documentVectors.set(doc.id, {...doc, vector})\<close>.\<close>

definition indexDocument ::
  "LocalEmbeddings \<Rightarrow> (string \<times> VectorEntry) list \<Rightarrow> Document \<Rightarrow> (string \<times> VectorEntry) list" where
  "indexDocument emb dv doc =
     mapSet (id' doc)
       \<lparr>id' = id' doc, content = content doc, metadata = metadata doc,
        vector = embed emb (content doc)\<rparr> dv"

definition buildVectorIndex :: "RAGEngine \<Rightarrow> error + RAGEngine" where
  "buildVectorIndex e =
     (case dataSource e of
        None \<Rightarrow> Inl TypeError
      | Some ds \<Rightarrow>
          (case embeddings e of
             None \<Rightarrow> if getDocuments ds = [] then Inr e else Inl TypeError
           | Some emb \<Rightarrow>
               Inr (e\<lparr>documentVectors := foldl (indexDocument emb) (documentVectors e) (getDocuments ds)\<rparr>)))"

text \<open>
  \<open>loaded\<close> is what the files hold when the source reads them, \<open>llmInit\<close> the outcome of
  \<open>this.llm.initialize()\<close>; both are outside the program.
\<close>

definition initialize :: "error + Document list \<Rightarrow> error option \<Rightarrow> RAGEngine \<Rightarrow> error + RAGEngine" where
  "initialize loaded llmInit e =
     (case dataSource e of
        None \<Rightarrow> Inl DataSourceRequired
      | Some ds \<Rightarrow>
     (case llm e of
        None \<Rightarrow> Inl LLMRequired
      | Some l \<Rightarrow>
     (case (if \<not> initializedS ds then initializeSource loaded ds else Inr ds) of
        Inl err \<Rightarrow> Inl err
      | Inr ds' \<Rightarrow>
     (case llmInit of
        Some err \<Rightarrow> Inl err
      | None \<Rightarrow>
     (case embeddings e of
        None \<Rightarrow> Inr (e\<lparr>dataSource := Some ds', initialized := True\<rparr>)
      | Some emb \<Rightarrow>
          (let docs = getDocuments ds';
               texts = map content docs;
               emb' = initializeEmbeddings emb texts
           in case buildVectorIndex (e\<lparr>dataSource := Some ds', embeddings := Some emb'\<rparr>) of
                Inl err \<Rightarrow> Inl err
              | Inr e' \<Rightarrow> Inr (e'\<lparr>initialized := True\<rparr>)))))))"

definition refresh :: "error + Document list \<Rightarrow> RAGEngine \<Rightarrow> error + RAGEngine" where
  "refresh loaded e =
     (case dataSource e of
        None \<Rightarrow> Inl TypeError
      | Some ds \<Rightarrow>
     (case loadDocuments loaded ds of
        Inl err \<Rightarrow> Inl err
      | Inr ds' \<Rightarrow>
     (case embeddings e of
        None \<Rightarrow> Inr (e\<lparr>dataSource := Some ds'\<rparr>)
      | Some emb \<Rightarrow>
          (let docs = getDocuments ds';
               texts = map content docs;
               emb' = buildVocabulary emb texts
           in buildVectorIndex (e\<lparr>dataSource := Some ds', embeddings := Some emb'\<rparr>)))))"

definition addDocument :: "NewDocument \<Rightarrow> RAGEngine \<Rightarrow> error + string \<times> RAGEngine" where
  "addDocument document e =
     (case dataSource e of
        None \<Rightarrow> Inl TypeError
      | Some ds \<Rightarrow>
          (case sourceAddDocument ds document of (ident, ds') \<Rightarrow>
             (case embeddings e of
                None \<Rightarrow> Inr (ident, e\<lparr>dataSource := Some ds'\<rparr>)
              | Some emb \<Rightarrow>
                  Inr (ident,
                       e\<lparr>dataSource := Some ds',
                         documentVectors :=
                           mapSet ident
                             \<lparr>id' = ident, content = newContent document,
                              metadata = (case newMetadata document of None \<Rightarrow> [] | Some m \<Rightarrow> m),
                              vector = embed emb (newContent document)\<rparr>
                             (documentVectors e)\<rparr>))))"

subsection \<open>\<open>retrieve\<close>, \<open>retrieveByVector\<close>\<close>

text \<open>
  \<open>const doc = this.documentVectors.get(id); results.push({id: doc.id, ..., score})\<close>:
  reading \<open>doc.id\<close> throws when the map has no entry for \<open>id\<close>.
\<close>

definition toResult :: "RAGEngine \<Rightarrow> string \<times> real \<Rightarrow> error + RetrievalResult" where
  "toResult e p =
     (case mapGet (documentVectors e) (fst p) of
        None \<Rightarrow> Inl TypeError
      | Some doc \<Rightarrow>
          Inr \<lparr>id' = id' doc, content = content doc, metadata = metadata doc, score = snd p\<rparr>)"

text \<open>The first loop: \<open>if (score >= this.similarityThreshold && results.length < topK)\<close>.\<close>

fun filterLoop ::
  "RAGEngine \<Rightarrow> nat \<Rightarrow> (string \<times> real) list \<Rightarrow> RetrievalResult list \<Rightarrow> error + RetrievalResult list" where
  "filterLoop e k [] results = Inr results"
| "filterLoop e k (p # rest) results =
     (if snd p \<ge> similarityThreshold e \<and> length results < k
      then (case toResult e p of
              Inl err \<Rightarrow> Inl err
            | Inr r \<Rightarrow> filterLoop e k rest (results @ [r]))
      else filterLoop e k rest results)"

text \<open>The second loop, over \<open>similarities.slice(0, topK)\<close>, pushes without a test.\<close>

fun pushAll ::
  "RAGEngine \<Rightarrow> (string \<times> real) list \<Rightarrow> RetrievalResult list \<Rightarrow> error + RetrievalResult list" where
  "pushAll e [] results = Inr results"
| "pushAll e (p # rest) results =
     (case toResult e p of
        Inl err \<Rightarrow> Inl err
      | Inr r \<Rightarrow> pushAll e rest (results @ [r]))"

definition retrieveByVector ::
  "RAGEngine \<Rightarrow> LocalEmbeddings \<Rightarrow> string \<Rightarrow> nat \<Rightarrow> error + RetrievalResult list" where
  "retrieveByVector e emb query k =
     (let queryVector = embed emb query;
          docs = mapValues (documentVectors e)
      in case findSimilar queryVector docs (k * 2) of
           Inl err \<Rightarrow> Inl err
         | Inr similarities \<Rightarrow>
             (case filterLoop e k similarities [] of
                Inl err \<Rightarrow> Inl err
              | Inr results \<Rightarrow>
                  if length results = 0 \<and> length similarities > 0
                  then pushAll e (take k similarities) results
                  else Inr results))"

text \<open>
  \<open>retrieve(query, topK = this.topK)\<close>: a missing second argument is \<open>None\<close>. The text
  search of the data source, used when there is no vector cache, is a parameter.
\<close>

definition retrieve ::
  "(FileDataSource \<Rightarrow> string \<Rightarrow> nat \<Rightarrow> error + RetrievalResult list) \<Rightarrow>
   RAGEngine \<Rightarrow> string \<Rightarrow> nat option \<Rightarrow> error + RetrievalResult list" where
  "retrieve sourceSearch e query kArg =
     (let k = (case kArg of None \<Rightarrow> topK e | Some k' \<Rightarrow> k')
      in case embeddings e of
           Some emb \<Rightarrow>
             if mapSize (documentVectors e) > 0 then retrieveByVector e emb query k
             else (case dataSource e of None \<Rightarrow> Inl TypeError | Some ds \<Rightarrow> sourceSearch ds query k)
         | None \<Rightarrow>
             (case dataSource e of None \<Rightarrow> Inl TypeError | Some ds \<Rightarrow> sourceSearch ds query k))"

subsection \<open>\<open>getStats\<close>, \<open>updateConfig\<close>\<close>

record Stats =
  statInitialized :: bool
  statDocumentCount :: nat
  statTopK :: nat
  statSimilarityThreshold :: real
  statLlmModel :: "string option"
  statEmbeddingDimension :: "nat option"

text \<open>\<open>documentCount: this.documentVectors.size || this.dataSource?.getDocumentCount() || 0\<close>.\<close>

definition getStats :: "RAGEngine \<Rightarrow> Stats" where
  "getStats e =
     \<lparr>statInitialized = initialized e,
      statDocumentCount =
        (if mapSize (documentVectors e) \<noteq> 0 then mapSize (documentVectors e)
         else (case dataSource e of
                 None \<Rightarrow> 0
               | Some ds \<Rightarrow> if getDocumentCount ds \<noteq> 0 then getDocumentCount ds else 0)),
      statTopK = topK e,
      statSimilarityThreshold = similarityThreshold e,
      statLlmModel = map_option model (llm e),
      statEmbeddingDimension = map_option dimension (embeddings e)\<rparr>"

text \<open>The argument of \<open>updateConfig\<close>: either field may be missing.\<close>

record UpdateConfig =
  updTopK :: "nat option"
  updSimilarityThreshold :: "real option"

text \<open>
  \<open>if (config.topK) this.topK = config.topK;\<close>
  \<open>if (config.similarityThreshold !== undefined) this.similarityThreshold = ...\<close>
\<close>

definition updateConfig :: "UpdateConfig \<Rightarrow> RAGEngine \<Rightarrow> RAGEngine" where
  "updateConfig config e =
     (let e1 = (case updTopK config of
                  None \<Rightarrow> e
                | Some k \<Rightarrow> if k \<noteq> 0 then e\<lparr>topK := k\<rparr> else e)
      in case updSimilarityThreshold config of
           None \<Rightarrow> e1
         | Some t \<Rightarrow> e1\<lparr>similarityThreshold := t\<rparr>)"

section \<open>Notions used to state the properties\<close>

definition dot :: "real list \<Rightarrow> real list \<Rightarrow> real" where
  "dot a b = (\<Sum>i<length a. a ! i * b ! i)"

definition l2norm :: "real list \<Rightarrow> real" where
  "l2norm v = sqrt (\<Sum>x\<leftarrow>v. x * x)"

subsection \<open>Boundary markers in the search window of \<open>chunkText\<close>\<close>

text \<open>
  Marker \<open>bp\<close> occurs at position \<open>p\<close> of the text, not after the tentative end
  \<open>start + chunkSize\<close> and after \<open>start + chunkSize / 2\<close>.
\<close>

definition candidate :: "string \<Rightarrow> int \<Rightarrow> int \<Rightarrow> string \<Rightarrow> nat \<Rightarrow> bool" where
  "candidate text start csize bp p =
     (matchAt text bp p \<and> int p \<le> start + csize \<and>
      real_of_int (int p) > real_of_int start + real_of_int csize / 2)"

text \<open>
  The window end as the specification words it: search backward from the tentative end
  for the nearest position at which any of the markers occurs inside the window, and
  move the end behind that marker. The window is the one of the code (after
  \<open>start + chunkSize / 2\<close>, up to the tentative end); where two markers occur at one
  position, the one listed first counts.
\<close>

fun nearestMarker :: "string \<Rightarrow> int \<Rightarrow> int \<Rightarrow> nat \<Rightarrow> int option" where
  "nearestMarker text start csize 0 =
     (case filter (\<lambda>bp. candidate text start csize bp 0) breakPoints of
        [] \<Rightarrow> None
      | bp # _ \<Rightarrow> Some (int (length bp)))"
| "nearestMarker text start csize (Suc p) =
     (case filter (\<lambda>bp. candidate text start csize bp (Suc p)) breakPoints of
        [] \<Rightarrow> nearestMarker text start csize p
      | bp # _ \<Rightarrow> Some (int (Suc p) + int (length bp)))"

definition specWindowEnd :: "FileDataSource \<Rightarrow> string \<Rightarrow> int \<Rightarrow> int" where
  "specWindowEnd ds text start =
     (let end = start + chunkSize ds
      in if end < int (length text)
         then (case nearestMarker text start (chunkSize ds) (nat end) of
                 None \<Rightarrow> end
               | Some e \<Rightarrow> e)
         else end)"

subsection \<open>Invariants of the vector cache\<close>

text \<open>
  A cached entry is well-formed for embedding width \<open>width\<close>: its vector is the
  embedding of its content under some state \<open>emb\<close> of a vectorizer of that width (the
  vocabulary at the time the entry was embedded). It has \<open>width\<close> components; it has
  Euclidean norm 1 whenever the vector accumulated from the tokens, before \<open>normalize\<close>,
  is not the zero vector, and it is the zero vector otherwise, in particular when the
  content has no token.
\<close>

definition vectorOk :: "nat \<Rightarrow> VectorEntry \<Rightarrow> bool" where
  "vectorOk width entry =
     (\<exists>emb. dimension emb = width \<and> vector entry = embed emb (content entry) \<and>
        length (vector entry) = width \<and>
        (denseVector emb (content entry) \<noteq> replicate width 0 \<longrightarrow> l2norm (vector entry) = 1) \<and>
        (denseVector emb (content entry) = replicate width 0 \<longrightarrow>
           vector entry = replicate width 0) \<and>
        (tokenize (content entry) = [] \<longrightarrow> vector entry = replicate width 0))"

definition cacheOk :: "RAGEngine \<Rightarrow> bool" where
  "cacheOk e =
     (\<forall>emb. embeddings e = Some emb \<longrightarrow>
        (\<forall>entry\<in>set (mapValues (documentVectors e)). vectorOk (dimension emb) entry))"

definition entriesOk :: "nat \<Rightarrow> (string \<times> VectorEntry) list \<Rightarrow> bool" where
  "entriesOk w dv = (\<forall>p\<in>set dv. vectorOk w (snd p))"

text \<open>Every entry of the cache is stored under its own id.\<close>

definition cacheKeyed :: "RAGEngine \<Rightarrow> bool" where
  "cacheKeyed e = (\<forall>p\<in>set (documentVectors e). fst p = id' (snd p))"

subsection \<open>The terms and document frequencies of a corpus\<close>

definition terms :: "string list \<Rightarrow> string set" where
  "terms docs = (\<Union>d\<in>set docs. set (tokenize d))"

definition docFrequency :: "string list \<Rightarrow> string \<Rightarrow> nat" where
  "docFrequency docs t = length (filter (\<lambda>d. t \<in> set (tokenize d)) docs)"

definition countOf :: "(string \<times> nat) list \<Rightarrow> string \<Rightarrow> nat" where
  "countOf m t = (case map_of m t of None \<Rightarrow> 0 | Some n \<Rightarrow> n)"

subsection \<open>Concrete inputs\<close>

text \<open>An engine whose only cached vector has one component under a vectorizer of width 2.\<close>

definition engineNarrowVector :: RAGEngine where
  "engineNarrowVector =
     \<lparr>dataSource = None, llm = None, embeddings = Some (newLocalEmbeddings (Some 2)),
      topK = 5, similarityThreshold = 3 / 10,
      documentVectors = [(''x'', \<lparr>id' = ''x'', content = ''one'', metadata = [], vector = [1]\<rparr>)],
      initialized = True\<rparr>"

text \<open>A text search of the data source that finds nothing.\<close>

definition searchNothing :: "FileDataSource \<Rightarrow> string \<Rightarrow> nat \<Rightarrow> error + RetrievalResult list" where
  "searchNothing ds query limit = Inr []"

text \<open>Three cached entries, the second and third with the same score against \<open>[1, 0]\<close>.\<close>

definition tiedEntries :: "VectorEntry list" where
  "tiedEntries =
     [\<lparr>id' = ''c'', content = '''', metadata = [], vector = [1 / 2, 0]\<rparr>,
      \<lparr>id' = ''a'', content = '''', metadata = [], vector = [9 / 10, 0]\<rparr>,
      \<lparr>id' = ''b'', content = '''', metadata = [], vector = [9 / 10, 1]\<rparr>]"

text \<open>
  \<open>new FileDataSource({chunkSize: 10, chunkOverlap: 8})\<close> and a text of 19 characters
  with a line break at position 6.
\<close>

definition loopingSource :: FileDataSource where
  "loopingSource = newFileDataSource (Some 10) (Some 8)"

definition loopingText :: string where
  "loopingText = ''Hello!'' @ [CHR 0x0A] @ ''World is big''"

text \<open>
  \<open>new FileDataSource({chunkSize: 12, chunkOverlap: 2})\<close> and a text with a paragraph
  break at position 7 and a sentence end at position 10.
\<close>

definition paragraphSource :: FileDataSource where
  "paragraphSource = newFileDataSource (Some 12) (Some 2)"

definition paragraphText :: string where
  "paragraphText = ''One two'' @ [CHR 0x0A, CHR 0x0A] @ ''A. Bcd efg hij''"

text \<open>
  An engine over a file source, an LLM and a vectorizer, all with default settings; the
  same engine after \<open>initialize()\<close> found one document in the files; and that engine
  after the file was deleted and \<open>refresh()\<close> ran.
\<close>

definition engineFresh :: RAGEngine where
  "engineFresh =
     newRAGEngine
       \<lparr>cfgDataSource = Some (newFileDataSource None None), cfgLlm = Some \<lparr>model = ''llama''\<rparr>,
        cfgEmbeddings = Some (newLocalEmbeddings None), cfgTopK = None,
        cfgSimilarityThreshold = None\<rparr>"

definition docAlpha :: Document where
  "docAlpha = \<lparr>id' = ''a.txt_chunk_0'', content = ''alpha'', metadata = []\<rparr>"

definition engineIndexed :: RAGEngine where
  "engineIndexed =
     (case initialize (Inr [docAlpha]) None engineFresh of Inr e \<Rightarrow> e | Inl err \<Rightarrow> engineFresh)"

definition engineRefreshed :: RAGEngine where
  "engineRefreshed =
     (case refresh (Inr []) engineIndexed of Inr e \<Rightarrow> e | Inl err \<Rightarrow> engineIndexed)"

text \<open>A document whose two tokens fall into the same bucket with opposite signs.\<close>

definition docCancelling :: NewDocument where
  "docCancelling =
     \<lparr>newId = Some ''d1'', newContent = ''model embedding'', newMetadata = None\<rparr>"

text \<open>The vectorizer of \<open>engineIndexed\<close>, and the engine that \<open>addDocument(docCancelling)\<close> leaves.\<close>

definition embIndexed :: LocalEmbeddings where
  "embIndexed = initializeEmbeddings (newLocalEmbeddings None) [''alpha'']"

definition engineCancelled :: RAGEngine where
  "engineCancelled =
     engineFresh
       \<lparr>dataSource :=
          Some ((newFileDataSource None None)
                  \<lparr>documents := [\<lparr>id' = ''d1'', content = ''model embedding'', metadata = []\<rparr>]\<rparr>),
        documentVectors :=
          [(''d1'', \<lparr>id' = ''d1'', content = ''model embedding'', metadata = [],
                    vector = replicate 384 0\<rparr>)]\<rparr>"

text \<open>
  A vectorizer after \<open>buildVocabulary(["alpha beta", "alpha"])\<close>, and the same vectorizer
  after a second \<open>buildVocabulary(["gamma delta"])\<close>.
\<close>

definition embFirstBuild :: LocalEmbeddings where
  "embFirstBuild = buildVocabulary (newLocalEmbeddings None) [''alpha beta'', ''alpha'']"

definition embSecondBuild :: LocalEmbeddings where
  "embSecondBuild = buildVocabulary embFirstBuild [''gamma delta'']"

text \<open>
  An engine whose vectorizer has 2 buckets, and the same engine after
  \<open>addDocument({id: "d1", content: "alpha"})\<close> and
  \<open>addDocument({id: "d2", content: "gamma"})\<close>.
\<close>

definition engineSmall :: RAGEngine where
  "engineSmall =
     newRAGEngine
       \<lparr>cfgDataSource = Some (newFileDataSource None None), cfgLlm = Some \<lparr>model = ''llama''\<rparr>,
        cfgEmbeddings = Some (newLocalEmbeddings (Some 2)), cfgTopK = None,
        cfgSimilarityThreshold = None\<rparr>"

definition engineTwoDocs :: RAGEngine where
  "engineTwoDocs =
     engineSmall
       \<lparr>dataSource :=
          Some ((newFileDataSource None None)
                  \<lparr>documents := [\<lparr>id' = ''d1'', content = ''alpha'', metadata = []\<rparr>,
                                 \<lparr>id' = ''d2'', content = ''gamma'', metadata = []\<rparr>]\<rparr>),
        documentVectors :=
          [(''d1'', \<lparr>id' = ''d1'', content = ''alpha'', metadata = [], vector = [1, 0]\<rparr>),
           (''d2'', \<lparr>id' = ''d2'', content = ''gamma'', metadata = [], vector = [0, 1]\<rparr>)]\<rparr>"

section \<open>Properties\<close>

subsection \<open>Tokens of the example texts\<close>

lemma tokenize_words:
  "tokenize ''alpha'' = [''alpha'']" "tokenize ''gamma'' = [''gamma'']"
  "tokenize ''yellow'' = [''yellow'']"
  by (simp_all add: tokenize_def splitWhitespace_def replaceNonWord_def toLowerCase_def
      toLowerChar_def isWordChar_def isSpace_def)

subsection \<open>Vector lengths\<close>

lemma length_denseLoop: "length (denseLoop e m tf v) = length v"
  by (induction tf arbitrary: v) auto

lemma length_normalize: "length (normalize v) = length v"
  by (simp add: normalize_def Let_def)

lemma length_embed: "length (embed e text) = dimension e"
  by (simp add: embed_def denseVector_def Let_def length_normalize length_denseLoop)

subsection \<open>\<open>cosineSimilarity\<close> and the propagation of its error\<close>

lemma foldl_dot_aux:
  "foldl (\<lambda>acc i. acc + a ! i * b ! i) s [0..<n] = s + (\<Sum>i<n. a ! i * (b ! i) :: real)"
  by (induction n arbitrary: s) (simp_all add: algebra_simps)

lemma cosineSimilarity_dot:
  "length a = length b \<Longrightarrow> cosineSimilarity a b = Inr (dot a b)"
  by (simp add: cosineSimilarity_def dot_def foldl_dot_aux)

lemma cosineSimilarity_Inl:
  "cosineSimilarity a b = Inl err \<longleftrightarrow> (length a \<noteq> length b \<and> err = DimensionMismatch)"
  by (auto simp: cosineSimilarity_def)

lemma scoreAll_Inr:
  "\<forall>d\<in>set docs. length (vector d) = length q \<Longrightarrow>
   scoreAll q docs = Inr (map (\<lambda>d. (id' d, dot q (vector d))) docs)"
  by (induction docs) (simp_all add: cosineSimilarity_dot)

lemma scoreAll_Inl:
  "\<exists>d\<in>set docs. length (vector d) \<noteq> length q \<Longrightarrow> scoreAll q docs = Inl DimensionMismatch"
proof (induction docs)
  case Nil
  then show ?case by simp
next
  case (Cons d docs)
  show ?case
  proof (cases "length (vector d) = length q")
    case True
    with Cons.prems have "\<exists>d\<in>set docs. length (vector d) \<noteq> length q" by auto
    with Cons.IH have "scoreAll q docs = Inl DimensionMismatch" by simp
    with True show ?thesis by (simp add: cosineSimilarity_dot)
  next
    case False
    then show ?thesis by (simp add: cosineSimilarity_def)
  qed
qed

lemma findSimilar_Inl:
  "\<exists>d\<in>set docs. length (vector d) \<noteq> length q \<Longrightarrow> findSimilar q docs k = Inl DimensionMismatch"
  by (simp add: findSimilar_def scoreAll_Inl)

text \<open>
  C9. \<open>cosineSimilarity a b\<close> fails with the dimension-mismatch error exactly when \<open>a\<close> and
  \<open>b\<close> differ in length, and is the dot product of \<open>a\<close> and \<open>b\<close> otherwise. The error
  comes out of retrieval scoring unchanged: \<open>findSimilar\<close>, \<open>retrieveByVector\<close> and
  \<open>retrieve\<close> fail with it as soon as one scored vector has another length than the
  query vector, and return no score list.
\<close>

theorem cosineSimilarity_mismatch:
  "(cosineSimilarity a b = Inl DimensionMismatch \<longleftrightarrow> length a \<noteq> length b) \<and>
   (length a = length b \<longrightarrow> cosineSimilarity a b = Inr (dot a b)) \<and>
   ((\<exists>d\<in>set docs. length (vector d) \<noteq> length q) \<longrightarrow>
      findSimilar q docs k = Inl DimensionMismatch) \<and>
   ((\<exists>d\<in>set (mapValues (documentVectors e)). length (vector d) \<noteq> dimension emb) \<longrightarrow>
      retrieveByVector e emb query k = Inl DimensionMismatch) \<and>
   (embeddings e = Some emb \<and>
    (\<exists>d\<in>set (mapValues (documentVectors e)). length (vector d) \<noteq> dimension emb) \<longrightarrow>
      retrieve sourceSearch e query kArg = Inl DimensionMismatch)"
proof (intro conjI impI)
  show "cosineSimilarity a b = Inl DimensionMismatch \<longleftrightarrow> length a \<noteq> length b"
    by (simp add: cosineSimilarity_Inl)
  show "cosineSimilarity a b = Inr (dot a b)" if "length a = length b"
    using that by (rule cosineSimilarity_dot)
  show "findSimilar q docs k = Inl DimensionMismatch"
    if "\<exists>d\<in>set docs. length (vector d) \<noteq> length q"
    using that by (rule findSimilar_Inl)
  show rbv: "retrieveByVector e emb query k = Inl DimensionMismatch"
    if "\<exists>d\<in>set (mapValues (documentVectors e)). length (vector d) \<noteq> dimension emb" for k
  proof -
    from that have "\<exists>d\<in>set (mapValues (documentVectors e)).
        length (vector d) \<noteq> length (embed emb query)"
      by (simp add: length_embed)
    then have "findSimilar (embed emb query) (mapValues (documentVectors e)) (k * 2)
        = Inl DimensionMismatch"
      by (rule findSimilar_Inl)
    then show ?thesis by (simp add: retrieveByVector_def)
  qed
  show "retrieve sourceSearch e query kArg = Inl DimensionMismatch"
    if h: "embeddings e = Some emb \<and>
      (\<exists>d\<in>set (mapValues (documentVectors e)). length (vector d) \<noteq> dimension emb)"
  proof -
    from h have ne: "mapSize (documentVectors e) > 0"
      by (auto simp: mapSize_def mapValues_def)
    from h ne show ?thesis
      by (simp add: retrieve_def rbv)
  qed
qed

theorem cosineSimilarity_mismatch_witness:
  "cosineSimilarity [1, 2] [3] = Inl DimensionMismatch \<and>
   cosineSimilarity [1, 2] [3, 4] = Inr 11 \<and>
   findSimilar [1, 2] [\<lparr>id' = ''x'', content = ''one'', metadata = [], vector = [1]\<rparr>] 5
     = Inl DimensionMismatch \<and>
   retrieveByVector engineNarrowVector (newLocalEmbeddings (Some 2)) ''query'' 5
     = Inl DimensionMismatch \<and>
   retrieve searchNothing engineNarrowVector ''query'' None = Inl DimensionMismatch"
  using cosineSimilarity_mismatch
          [of "[1, 2]" "[3]" "[\<lparr>id' = ''x'', content = ''one'', metadata = [], vector = [1]\<rparr>]"
              "[1, 2]" 5 engineNarrowVector "newLocalEmbeddings (Some 2)" "''query''"
              searchNothing None]
        cosineSimilarity_mismatch [of "[1, 2]" "[3, 4]"]
  by (simp add: dot_def engineNarrowVector_def newLocalEmbeddings_def mapValues_def
        lessThan_Suc numeral_2_eq_2)

subsection \<open>\<open>findSimilar\<close>: a stable sort by descending score\<close>

lemma mset_insertBy: "mset (insertBy cmp x ys) = add_mset x (mset ys)"
  by (induction ys) auto

lemma mset_sortBy: "mset (sortBy cmp xs) = mset xs"
  by (induction xs) (simp_all add: sortBy_def mset_insertBy)

lemma set_insertBy: "set (insertBy cmp x ys) = insert x (set ys)"
  by (induction ys) auto

lemma sorted_insertBy:
  "sorted_wrt (\<lambda>a b. snd a \<ge> snd b) ys \<Longrightarrow>
   sorted_wrt (\<lambda>a b. snd a \<ge> snd b) (insertBy byScoreDesc x ys)"
  by (induction ys) (auto simp: set_insertBy byScoreDesc_def)

lemma sorted_sortBy: "sorted_wrt (\<lambda>a b. snd a \<ge> snd b) (sortBy byScoreDesc xs)"
  by (induction xs) (simp_all add: sortBy_def sorted_insertBy)

lemma filter_insertBy:
  "filter (\<lambda>p. snd p = s) (insertBy byScoreDesc x ys) =
   (if snd x = s then x # filter (\<lambda>p. snd p = s) ys else filter (\<lambda>p. snd p = s) ys)"
  by (induction ys) (auto simp: byScoreDesc_def)

lemma filter_sortBy:
  "filter (\<lambda>p. snd p = s) (sortBy byScoreDesc xs) = filter (\<lambda>p. snd p = s) xs"
  by (induction xs) (simp_all add: sortBy_def filter_insertBy)

lemma length_sortBy: "length (sortBy cmp xs) = length xs"
  using mset_sortBy [of cmp xs] by (metis size_mset)

lemma set_sortBy: "set (sortBy cmp xs) = set xs"
  using mset_sortBy [of cmp xs] by (metis set_mset_mset)

text \<open>
  C8. When every document vector has the length of the query vector, \<open>findSimilar\<close>
  returns the first \<open>topK\<close> elements of a list \<open>ys\<close> that holds exactly the pairs
  \<open>(id, score)\<close> of the input documents, is sorted by descending score, and keeps the pairs
  of any one score in their input order.
\<close>

theorem findSimilar_ranking:
  assumes "\<forall>d\<in>set docs. length (vector d) = length q"
  shows "\<exists>ys. findSimilar q docs k = Inr (take k ys) \<and>
           mset ys = mset (map (\<lambda>d. (id' d, dot q (vector d))) docs) \<and>
           sorted_wrt (\<lambda>a b. snd a \<ge> snd b) ys \<and>
           (\<forall>s. filter (\<lambda>p. snd p = s) ys =
                filter (\<lambda>p. snd p = s) (map (\<lambda>d. (id' d, dot q (vector d))) docs))"
proof -
  let ?scores = "map (\<lambda>d. (id' d, dot q (vector d))) docs"
  have "findSimilar q docs k = Inr (take k (sortBy byScoreDesc ?scores))"
    using assms by (simp add: findSimilar_def scoreAll_Inr)
  then show ?thesis
    using mset_sortBy sorted_sortBy filter_sortBy by blast
qed

theorem findSimilar_ranking_witness:
  "findSimilar [1, 0] tiedEntries 2 = Inr [(''a'', 9 / 10), (''b'', 9 / 10)]"
proof -
  have h: "\<forall>d\<in>set tiedEntries. length (vector d) = length [1, 0::real]"
    by (simp add: tiedEntries_def)
  from findSimilar_ranking [OF h, of 2] obtain ys where
    ys: "findSimilar [1, 0] tiedEntries 2 = Inr (take 2 ys)" by blast
  have "findSimilar [1, 0] tiedEntries 2 = Inr [(''a'', 9 / 10), (''b'', 9 / 10)]"
    by (simp add: findSimilar_def cosineSimilarity_def sortBy_def byScoreDesc_def tiedEntries_def)
  with ys show ?thesis by simp
qed

subsection \<open>\<open>updateConfig\<close>\<close>

text \<open>
  C10. \<open>updateConfig\<close> reads \<open>topK\<close> by truthiness and \<open>similarityThreshold\<close> by
  \<open>!== undefined\<close>. A \<open>topK\<close> of 0 or a missing \<open>topK\<close> leaves \<open>topK\<close> as it was, any
  other \<open>topK\<close> is stored, and so no call turns a non-zero \<open>topK\<close> into 0. Every
  threshold that is given is stored, 0 included, and only a missing threshold leaves
  the threshold as it was. No other field of the engine changes.
\<close>

theorem updateConfig_zero_asymmetry:
  "(updTopK config = Some 0 \<longrightarrow> topK (updateConfig config e) = topK e) \<and>
   (updTopK config = None \<longrightarrow> topK (updateConfig config e) = topK e) \<and>
   (\<forall>k. updTopK config = Some k \<and> k \<noteq> 0 \<longrightarrow> topK (updateConfig config e) = k) \<and>
   (topK e \<noteq> 0 \<longrightarrow> topK (updateConfig config e) \<noteq> 0) \<and>
   (updSimilarityThreshold config = Some 0 \<longrightarrow> similarityThreshold (updateConfig config e) = 0) \<and>
   (\<forall>t. updSimilarityThreshold config = Some t \<longrightarrow>
      similarityThreshold (updateConfig config e) = t) \<and>
   (updSimilarityThreshold config = None \<longrightarrow>
      similarityThreshold (updateConfig config e) = similarityThreshold e) \<and>
   updateConfig config e
     = e\<lparr>topK := topK (updateConfig config e),
         similarityThreshold := similarityThreshold (updateConfig config e)\<rparr>"
  by (auto simp: updateConfig_def Let_def split: option.splits)

theorem updateConfig_zero_asymmetry_witness:
  "topK (updateConfig \<lparr>updTopK = Some 0, updSimilarityThreshold = Some 0\<rparr> engineNarrowVector) = 5 \<and>
   similarityThreshold
     (updateConfig \<lparr>updTopK = Some 0, updSimilarityThreshold = Some 0\<rparr> engineNarrowVector) = 0 \<and>
   topK (updateConfig \<lparr>updTopK = Some 7, updSimilarityThreshold = Some (1 / 2)\<rparr> engineNarrowVector) = 7 \<and>
   similarityThreshold
     (updateConfig \<lparr>updTopK = Some 7, updSimilarityThreshold = Some (1 / 2)\<rparr> engineNarrowVector)
     = 1 / 2 \<and>
   topK (updateConfig \<lparr>updTopK = None, updSimilarityThreshold = None\<rparr> engineNarrowVector) = 5 \<and>
   similarityThreshold
     (updateConfig \<lparr>updTopK = None, updSimilarityThreshold = None\<rparr> engineNarrowVector) = 3 / 10"
proof -
  let ?zero = "\<lparr>updTopK = Some 0, updSimilarityThreshold = Some 0\<rparr>"
  let ?set = "\<lparr>updTopK = Some 7, updSimilarityThreshold = Some (1 / 2)\<rparr>"
  let ?none = "\<lparr>updTopK = None, updSimilarityThreshold = None\<rparr>"
  note z = updateConfig_zero_asymmetry [of ?zero engineNarrowVector]
  note s = updateConfig_zero_asymmetry [of ?set engineNarrowVector]
  note n = updateConfig_zero_asymmetry [of ?none engineNarrowVector]
  have k: "topK engineNarrowVector = 5" and t: "similarityThreshold engineNarrowVector = 3 / 10"
    by (simp_all add: engineNarrowVector_def)
  have "topK (updateConfig ?zero engineNarrowVector) = topK engineNarrowVector"
    by (rule z [THEN conjunct1, THEN mp]) simp
  moreover have "similarityThreshold (updateConfig ?zero engineNarrowVector) = 0"
    by (rule z [THEN conjunct2, THEN conjunct2, THEN conjunct2, THEN conjunct2, THEN conjunct1,
          THEN mp]) simp
  moreover have "topK (updateConfig ?set engineNarrowVector) = 7"
    by (rule s [THEN conjunct2, THEN conjunct2, THEN conjunct1, THEN spec, THEN mp]) simp
  moreover have "similarityThreshold (updateConfig ?set engineNarrowVector) = 1 / 2"
    by (rule s [THEN conjunct2, THEN conjunct2, THEN conjunct2, THEN conjunct2, THEN conjunct2,
          THEN conjunct1, THEN spec, THEN mp]) simp
  moreover have "topK (updateConfig ?none engineNarrowVector) = topK engineNarrowVector"
    by (rule n [THEN conjunct2, THEN conjunct1, THEN mp]) simp
  moreover have "similarityThreshold (updateConfig ?none engineNarrowVector)
      = similarityThreshold engineNarrowVector"
    by (rule n [THEN conjunct2, THEN conjunct2, THEN conjunct2, THEN conjunct2, THEN conjunct2,
          THEN conjunct2, THEN conjunct1, THEN mp]) simp
  ultimately show ?thesis by (simp only: k t)
qed

subsection \<open>\<open>chunkText\<close>: a configuration on which the loop never ends\<close>

lemma windowEnd_looping_0: "windowEnd loopingSource loopingText 0 = 7"
  by (simp add: windowEnd_def loopingSource_def loopingText_def newFileDataSource_def
      breakPoints_def lastIndexOf_def matchAt_def eval_nat_numeral)

lemma windowEnd_looping_1: "windowEnd loopingSource loopingText (- 1) = 7"
  by (simp add: windowEnd_def loopingSource_def loopingText_def newFileDataSource_def
      breakPoints_def lastIndexOf_def matchAt_def eval_nat_numeral)

lemma length_loopingText: "length loopingText = 19"
  by (simp add: loopingText_def)

lemma loopingSource_fields: "chunkSize loopingSource = 10" "chunkOverlap loopingSource = 8"
  by (simp_all add: loopingSource_def newFileDataSource_def)

lemma chunkLoop_stuck: "chunkLoop n loopingSource loopingText (- 1) chunks = None"
  by (induction n arbitrary: chunks)
     (simp_all add: windowEnd_looping_1 length_loopingText loopingSource_fields Let_def)

text \<open>
  C5. With \<open>chunkSize = 10\<close> and \<open>chunkOverlap = 8\<close> (an overlap that is non-negative and
  below the chunk size) and the text \<open>"Hello!\nWorld is big"\<close>, the first iteration ends
  its window behind the line break, at 7, so the next window starts at \<open>7 - 8 = -1\<close>:
  the start has decreased. From start \<open>-1\<close> the loop comes back to start \<open>-1\<close>, and no
  number of iterations lets \<open>chunkText\<close> return.
\<close>

theorem chunkText_overlap_loops:
  "0 \<le> chunkOverlap loopingSource \<and> chunkOverlap loopingSource < chunkSize loopingSource \<and>
   windowEnd loopingSource loopingText 0 - chunkOverlap loopingSource = - 1 \<and>
   windowEnd loopingSource loopingText (- 1) - chunkOverlap loopingSource = - 1 \<and>
   (\<forall>n. chunkText n loopingSource loopingText = None)"
proof -
  have "chunkText n loopingSource loopingText = None" for n
  proof (cases n)
    case 0
    then show ?thesis
      by (simp add: chunkText_def length_loopingText loopingSource_fields)
  next
    case (Suc m)
    then show ?thesis
      by (simp add: chunkText_def length_loopingText loopingSource_fields
          windowEnd_looping_0 Let_def chunkLoop_stuck)
  qed
  then show ?thesis
    by (simp add: windowEnd_looping_0 windowEnd_looping_1 loopingSource_fields)
qed

subsection \<open>\<open>chunkText\<close>: which marker ends the window\<close>

lemma lastIndexFrom_cases:
  "(lastIndexFrom s t k = - 1 \<and> (\<forall>j\<le>k. \<not> matchAt s t j)) \<or>
   (\<exists>r\<le>k. lastIndexFrom s t k = int r \<and> matchAt s t r \<and>
      (\<forall>j. r < j \<and> j \<le> k \<longrightarrow> \<not> matchAt s t j))"
proof (induction k)
  case 0
  then show ?case by auto
next
  case (Suc k)
  show ?case
  proof (cases "matchAt s t (Suc k)")
    case True
    then show ?thesis by auto
  next
    case False
    from Suc.IH show ?thesis
    proof
      assume "lastIndexFrom s t k = - 1 \<and> (\<forall>j\<le>k. \<not> matchAt s t j)"
      with False show ?thesis by (auto simp: le_Suc_eq)
    next
      assume "\<exists>r\<le>k. lastIndexFrom s t k = int r \<and> matchAt s t r \<and>
        (\<forall>j. r < j \<and> j \<le> k \<longrightarrow> \<not> matchAt s t j)"
      then obtain r where r: "r \<le> k" "lastIndexFrom s t k = int r" "matchAt s t r"
        "\<forall>j. r < j \<and> j \<le> k \<longrightarrow> \<not> matchAt s t j" by blast
      have "\<forall>j. r < j \<and> j \<le> Suc k \<longrightarrow> \<not> matchAt s t j"
        using r(4) False by (auto simp: le_Suc_eq)
      with r False show ?thesis by auto
    qed
  qed
qed

lemma matchAt_le: "matchAt s t j \<Longrightarrow> j \<le> length s"
  by (simp add: matchAt_def)

lemma lastIndexOf_cases:
  assumes "0 \<le> pos"
  shows "(lastIndexOf s t pos = - 1 \<and> (\<forall>j. int j \<le> pos \<longrightarrow> \<not> matchAt s t j)) \<or>
   (\<exists>r. lastIndexOf s t pos = int r \<and> int r \<le> pos \<and> matchAt s t r \<and>
      (\<forall>j. r < j \<and> int j \<le> pos \<longrightarrow> \<not> matchAt s t j))"
proof -
  let ?k = "nat (min (max pos 0) (int (length s)))"
  have k: "\<And>j. matchAt s t j \<Longrightarrow> int j \<le> pos \<Longrightarrow> j \<le> ?k"
    using assms by (auto dest: matchAt_le)
  have k': "int ?k \<le> pos" using assms by auto
  from lastIndexFrom_cases [of s t ?k] show ?thesis
  proof
    assume "lastIndexFrom s t ?k = - 1 \<and> (\<forall>j\<le>?k. \<not> matchAt s t j)"
    then have a: "lastIndexFrom s t ?k = - 1" and b: "\<forall>j\<le>?k. \<not> matchAt s t j" by blast+
    have "\<forall>j. int j \<le> pos \<longrightarrow> \<not> matchAt s t j" using k b by blast
    then show ?thesis using a by (simp add: lastIndexOf_def)
  next
    assume "\<exists>r\<le>?k. lastIndexFrom s t ?k = int r \<and> matchAt s t r \<and>
      (\<forall>j. r < j \<and> j \<le> ?k \<longrightarrow> \<not> matchAt s t j)"
    then obtain r where r: "r \<le> ?k" "lastIndexFrom s t ?k = int r" "matchAt s t r"
      "\<forall>j. r < j \<and> j \<le> ?k \<longrightarrow> \<not> matchAt s t j" by blast
    have "int r \<le> pos" using r(1) k' by linarith
    moreover have "\<forall>j. r < j \<and> int j \<le> pos \<longrightarrow> \<not> matchAt s t j"
      using r(4) k by blast
    moreover have "lastIndexOf s t pos = int r" using r(2) by (simp add: lastIndexOf_def)
    ultimately show ?thesis using r(3) by blast
  qed
qed

lemma findBreak_priority:
  assumes "0 \<le> start" "0 \<le> csize"
  shows "(\<exists>pre bp post p. bps = pre @ bp # post \<and> candidate text start csize bp p \<and>
            findBreak text start csize (start + csize) bps = int p + int (length bp) \<and>
            (\<forall>q. candidate text start csize bp q \<longrightarrow> q \<le> p) \<and>
            (\<forall>bp'\<in>set pre. \<forall>q. \<not> candidate text start csize bp' q)) \<or>
         ((\<forall>bp\<in>set bps. \<forall>q. \<not> candidate text start csize bp q) \<and>
            findBreak text start csize (start + csize) bps = start + csize)"
proof (induction bps)
  case Nil
  then show ?case by simp
next
  case (Cons b bps)
  have pos: "0 \<le> start + csize" using assms by simp
  let ?r = "lastIndexOf text b (start + csize)"
  show ?case
  proof (cases "real_of_int ?r > real_of_int start + real_of_int csize / 2")
    case True
    with assms have "?r \<noteq> - 1" by auto
    with lastIndexOf_cases [OF pos, of "text" b] obtain r where
      r: "?r = int r" "int r \<le> start + csize" "matchAt text b r"
         "\<forall>j. r < j \<and> int j \<le> start + csize \<longrightarrow> \<not> matchAt text b j" by blast
    have c: "candidate text start csize b r"
      using r True by (simp add: candidate_def)
    have m: "\<forall>q. candidate text start csize b q \<longrightarrow> q \<le> r"
      using r(4) by (auto simp: candidate_def not_less [symmetric])
    have f: "findBreak text start csize (start + csize) (b # bps) = int r + int (length b)"
      using True r(1) by (simp add: Let_def)
    have "b # bps = [] @ b # bps \<and> candidate text start csize b r \<and>
       findBreak text start csize (start + csize) (b # bps) = int r + int (length b) \<and>
       (\<forall>q. candidate text start csize b q \<longrightarrow> q \<le> r) \<and>
       (\<forall>bp'\<in>set []. \<forall>q. \<not> candidate text start csize bp' q)"
      using c m f by simp
    then show ?thesis by blast
  next
    case False
    have none: "\<forall>q. \<not> candidate text start csize b q"
    proof (intro allI notI)
      fix q assume q: "candidate text start csize b q"
      from lastIndexOf_cases [OF pos, of "text" b] show False
      proof
        assume "?r = - 1 \<and> (\<forall>j. int j \<le> start + csize \<longrightarrow> \<not> matchAt text b j)"
        with q show False by (auto simp: candidate_def)
      next
        assume "\<exists>r. ?r = int r \<and> int r \<le> start + csize \<and> matchAt text b r \<and>
          (\<forall>j. r < j \<and> int j \<le> start + csize \<longrightarrow> \<not> matchAt text b j)"
        then obtain r where r: "?r = int r"
          "\<forall>j. r < j \<and> int j \<le> start + csize \<longrightarrow> \<not> matchAt text b j" by blast
        from q r(2) have "q \<le> r" by (auto simp: candidate_def not_less [symmetric])
        with q have "real_of_int (int r) > real_of_int start + real_of_int csize / 2"
          by (simp add: candidate_def)
        with False r(1) show False by simp
      qed
    qed
    have f: "findBreak text start csize (start + csize) (b # bps) =
             findBreak text start csize (start + csize) bps"
      using False by (simp add: Let_def)
    from Cons.IH show ?thesis
    proof
      assume "\<exists>pre bp post p. bps = pre @ bp # post \<and> candidate text start csize bp p \<and>
            findBreak text start csize (start + csize) bps = int p + int (length bp) \<and>
            (\<forall>q. candidate text start csize bp q \<longrightarrow> q \<le> p) \<and>
            (\<forall>bp'\<in>set pre. \<forall>q. \<not> candidate text start csize bp' q)"
      then obtain pre bp post p where h: "bps = pre @ bp # post" "candidate text start csize bp p"
            "findBreak text start csize (start + csize) bps = int p + int (length bp)"
            "\<forall>q. candidate text start csize bp q \<longrightarrow> q \<le> p"
            "\<forall>bp'\<in>set pre. \<forall>q. \<not> candidate text start csize bp' q" by blast
      have "b # bps = (b # pre) @ bp # post \<and> candidate text start csize bp p \<and>
            findBreak text start csize (start + csize) (b # bps) = int p + int (length bp) \<and>
            (\<forall>q. candidate text start csize bp q \<longrightarrow> q \<le> p) \<and>
            (\<forall>bp'\<in>set (b # pre). \<forall>q. \<not> candidate text start csize bp' q)"
        using h none f by simp
      then show ?thesis by blast
    next
      assume "(\<forall>bp\<in>set bps. \<forall>q. \<not> candidate text start csize bp q) \<and>
            findBreak text start csize (start + csize) bps = start + csize"
      with none f show ?thesis by simp
    qed
  qed
qed

text \<open>
  C6 as stated fails: with \<open>chunkSize = 12\<close> the first window of
  \<open>"One two\n\nA. Bcd efg hij"\<close> has a paragraph break at 7 and a sentence end at 10, both
  inside the search window. The sentence end is the nearer one to the tentative end 12,
  and the window as the specification words it ends behind it, at 12; the code ends
  the window behind the paragraph break, at 9.
\<close>

theorem windowEnd_nearest_counterexample:
  "windowEnd paragraphSource paragraphText 0 = 9 \<and>
   specWindowEnd paragraphSource paragraphText 0 = 12"
  by (simp add: windowEnd_def specWindowEnd_def paragraphSource_def paragraphText_def
      newFileDataSource_def breakPoints_def candidate_def
      lastIndexOf_def matchAt_def eval_nat_numeral)

text \<open>
  C6, amended. For a window start \<open>start \<ge> 0\<close> whose tentative end \<open>start + chunkSize\<close>
  is before the end of the text, the markers are tried in the order paragraph break,
  line break, \<open>". "\<close>, \<open>"! "\<close>, \<open>"? "\<close>: the window ends behind the last occurrence, at or
  before the tentative end and after \<open>start + chunkSize / 2\<close>, of the first marker in
  that order that has such an occurrence; when no marker has one, the end stays
  \<open>start + chunkSize\<close>.
\<close>

theorem windowEnd_marker_priority:
  assumes "0 \<le> start" and "0 \<le> chunkSize ds" and "start + chunkSize ds < int (length text)"
  shows "(\<exists>pre bp post p.
            breakPoints = pre @ bp # post \<and> candidate text start (chunkSize ds) bp p \<and>
            windowEnd ds text start = int p + int (length bp) \<and>
            (\<forall>q. candidate text start (chunkSize ds) bp q \<longrightarrow> q \<le> p) \<and>
            (\<forall>bp'\<in>set pre. \<forall>q. \<not> candidate text start (chunkSize ds) bp' q)) \<or>
         ((\<forall>bp\<in>set breakPoints. \<forall>q. \<not> candidate text start (chunkSize ds) bp q) \<and>
            windowEnd ds text start = start + chunkSize ds)"
proof -
  have "windowEnd ds text start =
        findBreak text start (chunkSize ds) (start + chunkSize ds) breakPoints"
    using assms(3) by (simp add: windowEnd_def Let_def)
  with findBreak_priority [OF assms(1) assms(2), of breakPoints "text"] show ?thesis
    by simp
qed

theorem windowEnd_marker_priority_witness:
  "\<exists>pre bp post p.
     breakPoints = pre @ bp # post \<and>
     candidate paragraphText 0 (chunkSize paragraphSource) bp p \<and>
     windowEnd paragraphSource paragraphText 0 = int p + int (length bp)"
proof -
  have h1: "(0::int) \<le> 0" by simp
  have h2: "0 \<le> chunkSize paragraphSource"
    by (simp add: paragraphSource_def newFileDataSource_def)
  have h3: "0 + chunkSize paragraphSource < int (length paragraphText)"
    by (simp add: paragraphSource_def newFileDataSource_def paragraphText_def)
  have c: "candidate paragraphText 0 (chunkSize paragraphSource) [CHR 0x0A, CHR 0x0A] 7"
    by (simp add: candidate_def matchAt_def paragraphSource_def newFileDataSource_def
        paragraphText_def)
  have m: "[CHR 0x0A, CHR 0x0A] \<in> set breakPoints"
    by (simp add: breakPoints_def)
  from windowEnd_marker_priority [OF h1 h2 h3] c m show ?thesis
    by blast
qed

subsection \<open>Normalisation and the invariant of the vector cache\<close>

lemma foldl_squares: "foldl (\<lambda>sum val. sum + val * val) a v = a + (\<Sum>x\<leftarrow>v. x * (x::real))"
  by (induction v arbitrary: a) simp_all

lemma replicate_update_same: "(replicate n x)[i := x] = replicate n x"
  by (induction n arbitrary: i) (simp_all split: nat.splits)

lemma normalize_zero: "normalize (replicate n 0) = replicate n 0"
  by (simp add: normalize_def foldl_squares Let_def sum_list_replicate)

lemma squares_zero:
  assumes "(\<Sum>x\<leftarrow>v. x * (x::real)) = 0"
  shows "v = replicate (length v) 0"
proof -
  have "\<forall>y\<in>set (map (\<lambda>x. x * x) v). (0::real) \<le> y" by auto
  with assms have "\<forall>y\<in>set (map (\<lambda>x. x * x) v). y = 0"
    by (simp only: sum_list_nonneg_eq_0_iff)
  then have "\<forall>x\<in>set v. x = 0" by auto
  then show ?thesis by (simp add: replicate_length_same)
qed

lemma squares_scaled:
  "(\<Sum>x\<leftarrow>map (\<lambda>val. val / n) v. x * x) = (\<Sum>x\<leftarrow>v. x * (x::real)) / (n * n)"
  by (induction v) (simp_all add: add_divide_distrib)

lemma l2norm_normalize_nonzero:
  assumes "v \<noteq> replicate (length v) 0"
  shows "l2norm (normalize v) = 1"
proof -
  let ?s = "\<Sum>x\<leftarrow>v. x * x"
  have "?s \<noteq> 0" using assms squares_zero [of v] by auto
  moreover have "0 \<le> ?s" by (rule sum_list_nonneg) auto
  ultimately have pos: "0 < ?s" by simp
  then have "sqrt ?s \<noteq> 0" by simp
  then have n: "normalize v = map (\<lambda>val. val / sqrt ?s) v"
    by (simp add: normalize_def foldl_squares)
  have "(\<Sum>x\<leftarrow>normalize v. x * x) = ?s / (sqrt ?s * sqrt ?s)"
    unfolding n by (rule squares_scaled)
  also have "\<dots> = 1" using pos by simp
  finally show ?thesis by (simp add: l2norm_def)
qed

lemma length_denseVector: "length (denseVector e c) = dimension e"
  by (simp add: denseVector_def Let_def length_denseLoop)

lemma denseVector_no_tokens: "tokenize c = [] \<Longrightarrow> denseVector e c = replicate (dimension e) 0"
  by (simp add: denseVector_def termFrequency_def)

lemma embed_unit:
  "denseVector e c \<noteq> replicate (dimension e) 0 \<Longrightarrow> l2norm (embed e c) = 1"
  using l2norm_normalize_nonzero [of "denseVector e c"]
  by (simp add: embed_def length_denseVector)

lemma embed_zero:
  "denseVector e c = replicate (dimension e) 0 \<Longrightarrow> embed e c = replicate (dimension e) 0"
  by (simp add: embed_def normalize_zero)

lemma embed_no_tokens: "tokenize c = [] \<Longrightarrow> embed e c = replicate (dimension e) 0"
  by (simp add: embed_zero denseVector_no_tokens)

lemma normalize_divisor:
  "normalize v = (case normalizeDivisor v of None \<Rightarrow> v | Some n \<Rightarrow> map (\<lambda>val. val / n) v)"
  by (simp add: normalize_def normalizeDivisor_def Let_def)

lemma normalizeDivisor_nonzero: "normalizeDivisor v \<noteq> Some 0"
  by (simp add: normalizeDivisor_def Let_def)

lemma maxTf_positive: "0 < maxTf tf"
proof -
  have "1 \<le> foldr max xs (1::nat)" for xs
    by (induction xs) auto
  then show ?thesis by (simp add: maxTf_def less_eq_Suc_le)
qed

lemma vectorOk_embed:
  "vectorOk (dimension emb) \<lparr>id' = i, content = c, metadata = m, vector = embed emb c\<rparr>"
  unfolding vectorOk_def
  by (rule exI [of _ emb]) (simp add: length_embed embed_unit embed_zero embed_no_tokens)

lemma set_mapSet: "set (mapSet k v m) \<subseteq> insert (k, v) (set m)"
  by (induction m) auto

lemma all_indexed:
  assumes "\<forall>p\<in>set dv. P p"
    and "\<And>doc :: Document. P (id' doc, \<lparr>id' = id' doc, content = content doc, metadata = metadata doc,
            vector = embed emb (content doc)\<rparr>)"
  shows "\<forall>p\<in>set (foldl (indexDocument emb) dv docs). P p"
  using assms(1)
proof (induction docs arbitrary: dv)
  case Nil
  then show ?case by simp
next
  case (Cons d docs)
  have "\<forall>p\<in>set (indexDocument emb dv d). P p"
    using Cons.prems assms(2) [of d] set_mapSet [of "id' d" _ dv]
    by (auto simp: indexDocument_def)
  then show ?case using Cons.IH by simp
qed

lemma dimension_buildVocabulary: "dimension (buildVocabulary e docs) = dimension e"
  by (simp add: buildVocabulary_def Let_def)

lemma dimension_initializeEmbeddings: "dimension (initializeEmbeddings e docs) = dimension e"
  by (simp add: initializeEmbeddings_def dimension_buildVocabulary)

lemma cacheOk_entries:
  "cacheOk e \<longleftrightarrow> (\<forall>emb. embeddings e = Some emb \<longrightarrow> entriesOk (dimension emb) (documentVectors e))"
  by (auto simp: cacheOk_def entriesOk_def mapValues_def)

lemma entriesOk_index:
  "entriesOk (dimension emb) dv \<Longrightarrow> entriesOk (dimension emb) (foldl (indexDocument emb) dv docs)"
  unfolding entriesOk_def
  by (rule all_indexed) (simp_all add: vectorOk_embed)

lemma buildVectorIndex_cacheOk:
  assumes "buildVectorIndex e = Inr e'"
    and "\<forall>emb. embeddings e = Some emb \<longrightarrow> entriesOk (dimension emb) (documentVectors e)"
  shows "cacheOk e'"
  using assms
  by (auto simp: buildVectorIndex_def cacheOk_entries entriesOk_index
           split: option.splits if_splits)

lemma cacheOk_new: "cacheOk (newRAGEngine config)"
  by (simp add: cacheOk_def newRAGEngine_def mapValues_def)

lemma cacheOk_initialize:
  assumes "cacheOk e" and "initialize loaded llmInit e = Inr e'"
  shows "cacheOk e'"
proof (cases "embeddings e")
  case None
  with assms(2) have "embeddings e' = None"
    by (auto simp: initialize_def split: option.splits sum.splits if_splits)
  then show ?thesis by (simp add: cacheOk_def)
next
  case (Some emb)
  from assms(1) Some have ok: "entriesOk (dimension emb) (documentVectors e)"
    by (simp add: cacheOk_entries)
  from assms(2) Some obtain ds' e1 where
    b: "buildVectorIndex (e\<lparr>dataSource := Some ds',
          embeddings := Some (initializeEmbeddings emb (map content (getDocuments ds')))\<rparr>) = Inr e1"
    and e': "e' = e1\<lparr>initialized := True\<rparr>"
    by (auto simp: initialize_def Let_def split: option.splits sum.splits if_splits)
  have "cacheOk e1"
    by (rule buildVectorIndex_cacheOk [OF b]) (simp add: ok dimension_initializeEmbeddings)
  then show ?thesis by (simp add: e' cacheOk_def)
qed

lemma cacheOk_refresh:
  assumes "cacheOk e" and "refresh loaded e = Inr e'"
  shows "cacheOk e'"
proof (cases "embeddings e")
  case None
  with assms(2) have "embeddings e' = None"
    by (auto simp: refresh_def split: option.splits sum.splits if_splits)
  then show ?thesis by (simp add: cacheOk_def)
next
  case (Some emb)
  from assms(1) Some have ok: "entriesOk (dimension emb) (documentVectors e)"
    by (simp add: cacheOk_entries)
  from assms(2) Some obtain ds' where
    b: "buildVectorIndex (e\<lparr>dataSource := Some ds',
          embeddings := Some (buildVocabulary emb (map content (getDocuments ds')))\<rparr>) = Inr e'"
    by (auto simp: refresh_def Let_def split: option.splits sum.splits if_splits)
  show ?thesis
    by (rule buildVectorIndex_cacheOk [OF b]) (simp add: ok dimension_buildVocabulary)
qed

lemma cacheOk_addDocument:
  assumes "cacheOk e" and "addDocument document e = Inr (i, e')"
  shows "cacheOk e'"
proof (cases "embeddings e")
  case None
  with assms(2) have "embeddings e' = None"
    by (auto simp: addDocument_def split: option.splits prod.splits)
  then show ?thesis by (simp add: cacheOk_def)
next
  case (Some emb)
  from assms(1) Some have ok: "entriesOk (dimension emb) (documentVectors e)"
    by (simp add: cacheOk_entries)
  from assms(2) Some obtain m where
    dv: "documentVectors e' = mapSet i \<lparr>id' = i, content = newContent document, metadata = m,
            vector = embed emb (newContent document)\<rparr> (documentVectors e)"
    and emb: "embeddings e' = Some emb"
    by (auto simp: addDocument_def split: option.splits prod.splits)
  have "entriesOk (dimension emb) (documentVectors e')"
    using ok set_mapSet [of i _ "documentVectors e"] vectorOk_embed [of emb i "newContent document" m]
    unfolding dv entriesOk_def by fastforce
  then show ?thesis using emb by (simp add: cacheOk_entries)
qed

lemma tokenize_model_embedding: "tokenize ''model embedding'' = [''model'', ''embedding'']"
  by (simp add: tokenize_def splitWhitespace_def replaceNonWord_def toLowerCase_def
      toLowerChar_def isWordChar_def isSpace_def)

lemma denseVector_model_embedding:
  "denseVector (newLocalEmbeddings None) ''model embedding'' = replicate 384 0"
proof -
  have b1: "bucket (newLocalEmbeddings None) ''model'' = 169"
    by (simp add: bucket_def newLocalEmbeddings_def hashString_def hashStep_def)
  have b2: "bucket (newLocalEmbeddings None) ''embedding'' = 169"
    by (simp add: bucket_def newLocalEmbeddings_def hashString_def hashStep_def)
  have s1: "hashSign ''model'' = 1" by (simp add: hashSign_def hashString_def hashStep_def)
  have s2: "hashSign ''embedding'' = - 1" by (simp add: hashSign_def hashString_def hashStep_def)
  have d: "dimension (newLocalEmbeddings None) = 384" by (simp add: newLocalEmbeddings_def)
  have i: "idfOrOne (newLocalEmbeddings None) t = 1" for t
    by (simp add: idfOrOne_def newLocalEmbeddings_def mapGet_def)
  show ?thesis
    by (simp add: denseVector_def tokenize_model_embedding termFrequency_def mapGet_def maxTf_def
        mapValues_def Let_def b1 b2 s1 s2 d i replicate_update_same)
qed

lemma embed_model_embedding:
  "embed (newLocalEmbeddings None) ''model embedding'' = replicate 384 0"
  by (simp add: embed_def denseVector_model_embedding normalize_zero)

lemma addDocument_cancelling:
  "addDocument docCancelling engineFresh = Inr (''d1'', engineCancelled)"
  by (simp add: addDocument_def docCancelling_def engineFresh_def newRAGEngine_def
      newFileDataSource_def sourceAddDocument_def Let_def engineCancelled_def
      embed_model_embedding)

text \<open>
  C7 as stated fails: \<open>"model embedding"\<close> has two tokens, \<open>model\<close> with hash 104069929
  and \<open>embedding\<close> with hash -1408481449. Both fall into bucket 169 of 384, with
  opposite signs and the same weight, so the vector that \<open>addDocument\<close> caches is the
  zero vector: its norm is 0, not 1.
\<close>

theorem cache_unit_norm_counterexample:
  "addDocument docCancelling engineFresh = Inr (''d1'', engineCancelled) \<and>
   tokenize (newContent docCancelling) = [''model'', ''embedding''] \<and>
   map (\<lambda>entry. l2norm (vector entry)) (mapValues (documentVectors engineCancelled)) = [0]"
proof -
  have "tokenize (newContent docCancelling) = [''model'', ''embedding'']"
    by (simp add: docCancelling_def tokenize_model_embedding)
  moreover have
    "map (\<lambda>entry. l2norm (vector entry)) (mapValues (documentVectors engineCancelled)) = [0]"
    by (simp add: engineCancelled_def mapValues_def l2norm_def sum_list_replicate)
  ultimately show ?thesis
    using addDocument_cancelling by blast
qed

text \<open>
  C7, amended. The cache of a new engine is empty, and \<open>initialize\<close>, \<open>refresh\<close> and
  \<open>addDocument\<close> keep every cached entry well-formed (\<open>cacheOk\<close>): its vector is the
  embedding of its content and has exactly \<open>dimension\<close> components. An embedding has
  Euclidean norm 1 (over the reals) whenever the vector accumulated from the tokens is
  not the zero vector, and is the zero vector otherwise; the accumulated vector is the
  zero vector when the text has no token. \<open>normalize\<close> divides by \<open>normalizeDivisor\<close>
  only, which is never 0, and the maximal term frequency that \<open>embed\<close> divides by is
  never 0.
\<close>

theorem cache_invariant:
  "cacheOk (newRAGEngine config) \<and>
   (cacheOk e \<and> initialize loaded llmInit e = Inr e' \<longrightarrow> cacheOk e') \<and>
   (cacheOk e \<and> refresh loaded e = Inr e' \<longrightarrow> cacheOk e') \<and>
   (cacheOk e \<and> addDocument document e = Inr (i, e') \<longrightarrow> cacheOk e') \<and>
   length (embed emb c) = dimension emb \<and>
   (denseVector emb c \<noteq> replicate (dimension emb) 0 \<longrightarrow> l2norm (embed emb c) = 1) \<and>
   (denseVector emb c = replicate (dimension emb) 0 \<longrightarrow>
      embed emb c = replicate (dimension emb) 0) \<and>
   (tokenize c = [] \<longrightarrow> denseVector emb c = replicate (dimension emb) 0) \<and>
   normalize v = (case normalizeDivisor v of None \<Rightarrow> v | Some n \<Rightarrow> map (\<lambda>val. val / n) v) \<and>
   normalizeDivisor v \<noteq> Some 0 \<and>
   0 < maxTf tf"
proof -
  have "cacheOk e \<and> initialize loaded llmInit e = Inr e' \<longrightarrow> cacheOk e'"
    using cacheOk_initialize by blast
  moreover have "cacheOk e \<and> refresh loaded e = Inr e' \<longrightarrow> cacheOk e'"
    using cacheOk_refresh by blast
  moreover have "cacheOk e \<and> addDocument document e = Inr (i, e') \<longrightarrow> cacheOk e'"
    using cacheOk_addDocument by blast
  moreover note cacheOk_new [of config] length_embed [of emb c] normalize_divisor [of v]
    normalizeDivisor_nonzero [of v] maxTf_positive [of tf]
  moreover have "denseVector emb c \<noteq> replicate (dimension emb) 0 \<longrightarrow> l2norm (embed emb c) = 1"
    using embed_unit by blast
  moreover have "denseVector emb c = replicate (dimension emb) 0 \<longrightarrow>
      embed emb c = replicate (dimension emb) 0"
    using embed_zero by blast
  moreover have "tokenize c = [] \<longrightarrow> denseVector emb c = replicate (dimension emb) 0"
    using denseVector_no_tokens by blast
  ultimately show ?thesis by (intro conjI)
qed

lemma initialize_indexed: "initialize (Inr [docAlpha]) None engineFresh = Inr engineIndexed"
  by (simp add: engineIndexed_def initialize_def engineFresh_def newRAGEngine_def
      newFileDataSource_def initializeSource_def loadDocuments_def buildVectorIndex_def Let_def)

lemma engineIndexed_fields:
  "embeddings engineIndexed = Some embIndexed"
  "documentVectors engineIndexed =
     [(''a.txt_chunk_0'', \<lparr>id' = ''a.txt_chunk_0'', content = ''alpha'', metadata = [],
         vector = embed embIndexed ''alpha''\<rparr>)]"
  "dataSource engineIndexed =
     Some ((newFileDataSource None None)\<lparr>documents := [docAlpha], initializedS := True\<rparr>)"
  "topK engineIndexed = 5"
  "similarityThreshold engineIndexed = 3 / 10"
  by (simp_all add: engineIndexed_def initialize_def engineFresh_def newRAGEngine_def
      newFileDataSource_def initializeSource_def loadDocuments_def buildVectorIndex_def Let_def
      getDocuments_def indexDocument_def docAlpha_def embIndexed_def)

lemma refresh_refreshed: "refresh (Inr []) engineIndexed = Inr engineRefreshed"
  by (simp add: engineRefreshed_def refresh_def engineIndexed_fields loadDocuments_def
      buildVectorIndex_def Let_def)

lemma engineRefreshed_fields:
  "embeddings engineRefreshed = Some (buildVocabulary embIndexed [])"
  "documentVectors engineRefreshed = documentVectors engineIndexed"
  "dataSource engineRefreshed =
     Some ((newFileDataSource None None)\<lparr>documents := [], initializedS := True\<rparr>)"
  "topK engineRefreshed = 5"
  by (simp_all add: engineRefreshed_def refresh_def engineIndexed_fields loadDocuments_def
      buildVectorIndex_def Let_def getDocuments_def)

lemma embIndexed_fields:
  "dimension embIndexed = 384"
  "idf embIndexed = [(''alpha'', idfWeight 1 1)]"
  by (simp_all add: embIndexed_def initializeEmbeddings_def buildVocabulary_def
      newLocalEmbeddings_def Let_def countDocument_def tokenize_words newSet_def countToken_def
      mapGet_def mapHas_def mapSize_def setIdf_def)

lemma denseVector_alpha: "denseVector embIndexed ''alpha'' ! 350 = 1"
proof -
  have b: "bucket embIndexed ''alpha'' = 350"
    by (simp add: bucket_def embIndexed_fields hashString_def hashStep_def)
  have s: "hashSign ''alpha'' = 1"
    by (simp add: hashSign_def hashString_def hashStep_def)
  have i: "idfOrOne embIndexed ''alpha'' = 1"
    by (simp add: idfOrOne_def embIndexed_fields mapGet_def idfWeight_def)
  show ?thesis
    by (simp add: denseVector_def tokenize_words termFrequency_def mapGet_def maxTf_def
        mapValues_def Let_def b s i embIndexed_fields)
qed

lemma denseVector_alpha_nonzero:
  "denseVector embIndexed ''alpha'' \<noteq> replicate (dimension embIndexed) 0"
proof
  assume "denseVector embIndexed ''alpha'' = replicate (dimension embIndexed) 0"
  then have "denseVector embIndexed ''alpha'' ! 350 = replicate 384 (0::real) ! 350"
    by (simp add: embIndexed_fields)
  then show False by (simp add: denseVector_alpha)
qed

theorem cache_invariant_witness:
  "cacheOk engineFresh \<and>
   initialize (Inr [docAlpha]) None engineFresh = Inr engineIndexed \<and> cacheOk engineIndexed \<and>
   refresh (Inr []) engineIndexed = Inr engineRefreshed \<and> cacheOk engineRefreshed \<and>
   addDocument docCancelling engineFresh = Inr (''d1'', engineCancelled) \<and>
   cacheOk engineCancelled \<and>
   denseVector embIndexed ''alpha'' \<noteq> replicate (dimension embIndexed) 0 \<and>
   map (\<lambda>entry. l2norm (vector entry)) (mapValues (documentVectors engineIndexed)) = [1] \<and>
   tokenize ''?!'' = [] \<and>
   embed embIndexed ''?!'' = replicate (dimension embIndexed) 0 \<and>
   normalizeDivisor [1, 0] = Some 1 \<and> normalize [1, 0] = [1, 0] \<and>
   normalizeDivisor [0, 0] = None \<and> normalize [0, 0] = [0, 0]"
proof -
  note new = cache_invariant [THEN conjunct1]
  note init = cache_invariant [THEN conjunct2, THEN conjunct1, THEN mp, OF conjI]
  note refr = cache_invariant [THEN conjunct2, THEN conjunct2, THEN conjunct1, THEN mp, OF conjI]
  note addd = cache_invariant [THEN conjunct2, THEN conjunct2, THEN conjunct2, THEN conjunct1,
      THEN mp, OF conjI]
  note unit = cache_invariant [THEN conjunct2, THEN conjunct2, THEN conjunct2, THEN conjunct2,
      THEN conjunct2, THEN conjunct1, THEN mp]
  note zero = cache_invariant [THEN conjunct2, THEN conjunct2, THEN conjunct2, THEN conjunct2,
      THEN conjunct2, THEN conjunct2, THEN conjunct1, THEN mp]
  note notok = cache_invariant [THEN conjunct2, THEN conjunct2, THEN conjunct2, THEN conjunct2,
      THEN conjunct2, THEN conjunct2, THEN conjunct2, THEN conjunct1, THEN mp]
  note ndiv = cache_invariant [THEN conjunct2, THEN conjunct2, THEN conjunct2, THEN conjunct2,
      THEN conjunct2, THEN conjunct2, THEN conjunct2, THEN conjunct2, THEN conjunct1]
  have f: "cacheOk engineFresh"
    unfolding engineFresh_def by (rule new)
  have i: "cacheOk engineIndexed"
    by (rule init [OF f initialize_indexed])
  have r: "cacheOk engineRefreshed"
    by (rule refr [OF i refresh_refreshed])
  have c: "cacheOk engineCancelled"
    by (rule addd [OF f addDocument_cancelling])
  have u: "l2norm (embed embIndexed ''alpha'') = 1"
    by (rule unit [OF denseVector_alpha_nonzero])
  have n: "map (\<lambda>entry. l2norm (vector entry)) (mapValues (documentVectors engineIndexed)) = [1]"
    by (simp add: engineIndexed_fields mapValues_def u)
  have t: "tokenize ''?!'' = []"
    by (simp add: tokenize_def splitWhitespace_def replaceNonWord_def toLowerCase_def
        toLowerChar_def isWordChar_def isSpace_def)
  have z: "embed embIndexed ''?!'' = replicate (dimension embIndexed) 0"
    by (rule zero [OF notok [OF t]])
  have d: "normalizeDivisor [1, 0] = Some 1" "normalizeDivisor [0, 0] = None"
    by (simp_all add: normalizeDivisor_def)
  have m1: "normalize [1, 0] = [1, 0]"
    by (simp add: ndiv [of "[1, 0]"] d)
  have m0: "normalize [0, 0] = [0, 0]"
    by (simp add: ndiv [of "[0, 0]"] d)
  show ?thesis
    by (intro conjI f i r c initialize_indexed refresh_refreshed addDocument_cancelling
        denseVector_alpha_nonzero n t z d m1 m0)
qed

subsection \<open>\<open>retrieve\<close>: threshold, fallback, and the cache after \<open>refresh\<close>\<close>

lemma cacheKeyed_lookup:
  assumes "cacheKeyed e" and "k \<in> fst ` set (documentVectors e)"
  shows "\<exists>doc. mapGet (documentVectors e) k = Some doc \<and> id' doc = k"
proof -
  from assms(2) obtain doc where d: "map_of (documentVectors e) k = Some doc"
    by (cases "map_of (documentVectors e) k") (auto simp: map_of_eq_None_iff)
  then have "(k, doc) \<in> set (documentVectors e)" by (rule map_of_SomeD)
  with assms(1) have "k = id' doc" by (auto simp: cacheKeyed_def)
  with d show ?thesis by (simp add: mapGet_def)
qed

lemma toResult_ok:
  assumes "cacheKeyed e" and "fst p \<in> fst ` set (documentVectors e)"
  shows "\<exists>r. toResult e p = Inr r \<and> (id' r, score r) = p"
proof -
  from cacheKeyed_lookup [OF assms] obtain doc where
    "mapGet (documentVectors e) (fst p) = Some doc" "id' doc = fst p" by blast
  then show ?thesis by (simp add: toResult_def)
qed

lemma filterLoop_char:
  assumes "cacheKeyed e" and "\<forall>p\<in>set ps. fst p \<in> fst ` set (documentVectors e)"
  shows "\<exists>rs. filterLoop e k ps acc = Inr (acc @ rs) \<and>
           map (\<lambda>r. (id' r, score r)) rs =
             take (k - length acc) (filter (\<lambda>p. snd p \<ge> similarityThreshold e) ps)"
  using assms(2)
proof (induction ps arbitrary: acc)
  case Nil
  then show ?case by simp
next
  case (Cons p ps)
  from Cons.prems have rest: "\<forall>p\<in>set ps. fst p \<in> fst ` set (documentVectors e)" by simp
  show ?case
  proof (cases "snd p \<ge> similarityThreshold e \<and> length acc < k")
    case True
    from Cons.prems toResult_ok [OF assms(1), of p] obtain r where
      r: "toResult e p = Inr r" "(id' r, score r) = p" by auto
    from Cons.IH [OF rest, of "acc @ [r]"] obtain rs where
      rs: "filterLoop e k ps (acc @ [r]) = Inr ((acc @ [r]) @ rs)"
          "map (\<lambda>r. (id' r, score r)) rs =
             take (k - length (acc @ [r])) (filter (\<lambda>p. snd p \<ge> similarityThreshold e) ps)"
      by blast
    from True obtain j where j: "k - length acc = Suc j" by (cases "k - length acc") auto
    then have j': "k - length (acc @ [r]) = j" by simp
    have "filterLoop e k (p # ps) acc = Inr (acc @ (r # rs))"
      using True r(1) rs(1) by simp
    moreover have "map (\<lambda>r. (id' r, score r)) (r # rs) =
        take (k - length acc) (filter (\<lambda>p. snd p \<ge> similarityThreshold e) (p # ps))"
      using True r(2) rs(2) j j' by simp
    ultimately show ?thesis by blast
  next
    case False
    from Cons.IH [OF rest, of acc] obtain rs where
      rs: "filterLoop e k ps acc = Inr (acc @ rs)"
          "map (\<lambda>r. (id' r, score r)) rs =
             take (k - length acc) (filter (\<lambda>p. snd p \<ge> similarityThreshold e) ps)"
      by blast
    have f: "filterLoop e k (p # ps) acc = Inr (acc @ rs)"
      using False rs(1) by auto
    show ?thesis
    proof (cases "snd p \<ge> similarityThreshold e")
      case True
      with False have "k - length acc = 0" by simp
      with rs(2) f show ?thesis by simp
    next
      case False
      with rs(2) f show ?thesis by simp
    qed
  qed
qed

lemma pushAll_char:
  assumes "cacheKeyed e" and "\<forall>p\<in>set ps. fst p \<in> fst ` set (documentVectors e)"
  shows "\<exists>rs. pushAll e ps acc = Inr (acc @ rs) \<and> map (\<lambda>r. (id' r, score r)) rs = ps"
  using assms(2)
proof (induction ps arbitrary: acc)
  case Nil
  then show ?case by simp
next
  case (Cons p ps)
  from Cons.prems have rest: "\<forall>p\<in>set ps. fst p \<in> fst ` set (documentVectors e)" by simp
  from Cons.prems toResult_ok [OF assms(1), of p] obtain r where
    r: "toResult e p = Inr r" "(id' r, score r) = p" by auto
  from Cons.IH [OF rest, of "acc @ [r]"] obtain rs where
    rs: "pushAll e ps (acc @ [r]) = Inr ((acc @ [r]) @ rs)"
        "map (\<lambda>r. (id' r, score r)) rs = ps" by blast
  have "pushAll e (p # ps) acc = Inr (acc @ (r # rs))" using r(1) rs(1) by simp
  moreover have "map (\<lambda>r. (id' r, score r)) (r # rs) = p # ps" using r(2) rs(2) by simp
  ultimately show ?case by (intro exI [of _ "r # rs"] conjI)
qed

lemma values_keyed:
  assumes "cacheKeyed e"
  shows "id' ` set (mapValues (documentVectors e)) \<subseteq> fst ` set (documentVectors e)"
  using assms by (force simp: cacheKeyed_def mapValues_def)

lemma retrieveByVector_char:
  assumes keyed: "cacheKeyed e"
    and len: "\<forall>d\<in>set (mapValues (documentVectors e)). length (vector d) = dimension emb"
  shows "\<exists>ranked results.
           ranked = take (k * 2) (sortBy byScoreDesc
                      (map (\<lambda>d. (id' d, dot (embed emb query) (vector d)))
                         (mapValues (documentVectors e)))) \<and>
           findSimilar (embed emb query) (mapValues (documentVectors e)) (k * 2) = Inr ranked \<and>
           retrieveByVector e emb query k = Inr results \<and>
           map (\<lambda>r. (id' r, score r)) results =
             (if take k (filter (\<lambda>p. snd p \<ge> similarityThreshold e) ranked) = []
              then take k ranked
              else take k (filter (\<lambda>p. snd p \<ge> similarityThreshold e) ranked))"
proof -
  let ?q = "embed emb query"
  let ?vals = "mapValues (documentVectors e)"
  let ?scores = "map (\<lambda>d. (id' d, dot ?q (vector d))) ?vals"
  let ?pass = "\<lambda>p. snd p \<ge> similarityThreshold e"
  define ranked where "ranked = take (k * 2) (sortBy byScoreDesc ?scores)"
  have len': "\<forall>d\<in>set ?vals. length (vector d) = length ?q"
    using len by (simp add: length_embed)
  have fs: "findSimilar ?q ?vals (k * 2) = Inr ranked"
    using len' by (simp add: findSimilar_def scoreAll_Inr ranked_def)
  have "set ranked \<subseteq> set ?scores"
    unfolding ranked_def
    using set_take_subset [of "k * 2" "sortBy byScoreDesc ?scores"] by (simp add: set_sortBy)
  then have "fst ` set ranked \<subseteq> id' ` set ?vals" by force
  with values_keyed [OF keyed] have ids: "\<forall>p\<in>set ranked. fst p \<in> fst ` set (documentVectors e)"
    by blast
  then have ids': "\<forall>p\<in>set (take k ranked). fst p \<in> fst ` set (documentVectors e)"
    using set_take_subset [of k ranked] by blast
  from filterLoop_char [OF keyed ids, of k "[]"] obtain rs where
    rs: "filterLoop e k ranked [] = Inr rs"
        "map (\<lambda>r. (id' r, score r)) rs = take k (filter ?pass ranked)" by auto
  have "\<exists>results. retrieveByVector e emb query k = Inr results \<and>
           map (\<lambda>r. (id' r, score r)) results =
             (if take k (filter ?pass ranked) = [] then take k ranked
              else take k (filter ?pass ranked))"
  proof (cases "take k (filter ?pass ranked) = []")
    case True
    with rs(2) have empty: "rs = []" by simp
    show ?thesis
    proof (cases "ranked = []")
      case True
      have "retrieveByVector e emb query k = Inr []"
        using fs rs(1) empty True by (simp add: retrieveByVector_def Let_def)
      with True show ?thesis by simp
    next
      case False
      from pushAll_char [OF keyed ids', of "[]"] obtain rs' where
        rs': "pushAll e (take k ranked) [] = Inr rs'"
             "map (\<lambda>r. (id' r, score r)) rs' = take k ranked" by auto
      have "retrieveByVector e emb query k = Inr rs'"
        using fs rs(1) empty False rs'(1) by (simp add: retrieveByVector_def Let_def)
      with rs'(2) True show ?thesis by simp
    qed
  next
    case False
    with rs(2) have "rs \<noteq> []" by auto
    then have "retrieveByVector e emb query k = Inr rs"
      using fs rs(1) by (simp add: retrieveByVector_def Let_def)
    with rs(2) False show ?thesis by simp
  qed
  with fs ranked_def show ?thesis by blast
qed

text \<open>
  C2, amended. With a vectorizer and a non-empty cache in which every entry is stored
  under its own id with a vector of the embedding dimension, \<open>retrieve(query, topK)\<close>
  asks \<open>findSimilar\<close> for \<open>2 * topK\<close> candidates (and gets that many, or all entries
  when there are fewer) and returns, in rank order, the first \<open>topK\<close> candidates whose
  score is at least \<open>similarityThreshold\<close>; when no candidate passes, it returns the
  first \<open>topK\<close> candidates. For \<open>topK \<ge> 1\<close> the result is never empty; for \<open>topK = 0\<close>
  it is the empty list.
\<close>

theorem retrieve_threshold_fallback:
  assumes "embeddings e = Some emb" and "documentVectors e \<noteq> []"
    and "\<forall>d\<in>set (mapValues (documentVectors e)). length (vector d) = dimension emb"
    and "cacheKeyed e"
    and "k = (case kArg of None \<Rightarrow> topK e | Some k' \<Rightarrow> k')"
  shows "\<exists>ranked results.
           findSimilar (embed emb query) (mapValues (documentVectors e)) (2 * k) = Inr ranked \<and>
           length ranked = min (2 * k) (length (documentVectors e)) \<and>
           retrieve sourceSearch e query kArg = Inr results \<and>
           map (\<lambda>r. (id' r, score r)) results =
             (if take k (filter (\<lambda>p. snd p \<ge> similarityThreshold e) ranked) = []
              then take k ranked
              else take k (filter (\<lambda>p. snd p \<ge> similarityThreshold e) ranked)) \<and>
           (0 < k \<longrightarrow> results \<noteq> []) \<and>
           (k = 0 \<longrightarrow> results = [])"
proof -
  let ?pass = "\<lambda>p. snd p \<ge> similarityThreshold e"
  from retrieveByVector_char [OF assms(4) assms(3), of k query]
  obtain ranked results where
    r: "ranked = take (k * 2) (sortBy byScoreDesc
                      (map (\<lambda>d. (id' d, dot (embed emb query) (vector d)))
                         (mapValues (documentVectors e))))"
       "findSimilar (embed emb query) (mapValues (documentVectors e)) (k * 2) = Inr ranked"
       "retrieveByVector e emb query k = Inr results"
       "map (\<lambda>r. (id' r, score r)) results =
             (if take k (filter ?pass ranked) = [] then take k ranked
              else take k (filter ?pass ranked))"
    by blast
  have len: "length ranked = min (2 * k) (length (documentVectors e))"
    by (simp add: r(1) length_sortBy mapValues_def mult.commute)
  have pos: "results \<noteq> []" if "0 < k"
  proof -
    from len assms(2) that have "ranked \<noteq> []" by (cases "documentVectors e") auto
    with that have "take k ranked \<noteq> []" by (cases ranked) (auto simp: take_Cons')
    with r(4) have "map (\<lambda>r. (id' r, score r)) results \<noteq> []" by (auto split: if_splits)
    then show ?thesis by auto
  qed
  have zero: "results = []" if "k = 0"
    using r(4) that by simp
  have "retrieve sourceSearch e query kArg = retrieveByVector e emb query k"
    using assms(1) assms(2) assms(5) by (simp add: retrieve_def mapSize_def Let_def)
  with r(2) r(3) r(4) len pos zero show ?thesis
    by (simp add: mult.commute)
qed

lemma keyed_index:
  assumes "\<forall>p\<in>set dv. fst p = id' (snd p)"
  shows "\<forall>p\<in>set (foldl (indexDocument emb) dv docs). fst p = id' (snd p)"
  using assms by (rule all_indexed) simp

lemma cacheKeyed_new: "cacheKeyed (newRAGEngine config)"
  by (simp add: cacheKeyed_def newRAGEngine_def)

lemma cacheKeyed_buildVectorIndex:
  assumes "buildVectorIndex e = Inr e'" and "cacheKeyed e"
  shows "cacheKeyed e'"
proof -
  from assms(1) consider
      (same) "documentVectors e' = documentVectors e"
    | (indexed) emb docs where
        "documentVectors e' = foldl (indexDocument emb) (documentVectors e) docs"
    by (auto simp: buildVectorIndex_def split: option.splits if_splits)
  then show ?thesis
  proof cases
    case same
    with assms(2) show ?thesis by (simp add: cacheKeyed_def)
  next
    case indexed
    from assms(2) have "\<forall>p\<in>set (documentVectors e). fst p = id' (snd p)"
      by (simp add: cacheKeyed_def)
    from keyed_index [OF this] show ?thesis by (simp add: cacheKeyed_def indexed)
  qed
qed

lemma cacheKeyed_initialize:
  assumes "cacheKeyed e" and "initialize loaded llmInit e = Inr e'"
  shows "cacheKeyed e'"
proof (cases "embeddings e")
  case None
  with assms show ?thesis
    by (auto simp: initialize_def cacheKeyed_def split: option.splits sum.splits if_splits)
next
  case (Some emb)
  from assms(2) Some obtain ds' emb' e1 where
    b: "buildVectorIndex (e\<lparr>dataSource := Some ds', embeddings := Some emb'\<rparr>) = Inr e1"
    and e': "e' = e1\<lparr>initialized := True\<rparr>"
    by (auto simp: initialize_def Let_def split: option.splits sum.splits if_splits)
  from assms(1) have "cacheKeyed (e\<lparr>dataSource := Some ds', embeddings := Some emb'\<rparr>)"
    by (simp add: cacheKeyed_def)
  with b have "cacheKeyed e1" by (rule cacheKeyed_buildVectorIndex)
  then show ?thesis by (simp add: e' cacheKeyed_def)
qed

lemma cacheKeyed_refresh:
  assumes "cacheKeyed e" and "refresh loaded e = Inr e'"
  shows "cacheKeyed e'"
proof (cases "embeddings e")
  case None
  with assms show ?thesis
    by (auto simp: refresh_def cacheKeyed_def split: option.splits sum.splits if_splits)
next
  case (Some emb)
  from assms(2) Some obtain ds' emb' where
    b: "buildVectorIndex (e\<lparr>dataSource := Some ds', embeddings := Some emb'\<rparr>) = Inr e'"
    by (auto simp: refresh_def Let_def split: option.splits sum.splits if_splits)
  from assms(1) have "cacheKeyed (e\<lparr>dataSource := Some ds', embeddings := Some emb'\<rparr>)"
    by (simp add: cacheKeyed_def)
  with b show ?thesis by (rule cacheKeyed_buildVectorIndex)
qed

lemma cacheKeyed_addDocument:
  assumes "cacheKeyed e" and "addDocument document e = Inr (i, e')"
  shows "cacheKeyed e'"
proof (cases "embeddings e")
  case None
  with assms show ?thesis
    by (auto simp: addDocument_def cacheKeyed_def split: option.splits prod.splits)
next
  case (Some emb)
  from assms(2) Some obtain v where
    dv: "documentVectors e' = mapSet i v (documentVectors e)" and v: "id' v = i"
    by (auto simp: addDocument_def split: option.splits prod.splits)
  show ?thesis
    using assms(1) set_mapSet [of i v "documentVectors e"] v
    unfolding dv cacheKeyed_def by fastforce
qed

lemma keys_mapSet: "fst ` set (mapSet k v m) = insert k (fst ` set m)"
  by (induction m) auto

lemma keys_index: "fst ` set dv \<subseteq> fst ` set (foldl (indexDocument emb) dv docs)"
proof (induction docs arbitrary: dv)
  case Nil
  then show ?case by simp
next
  case (Cons d docs)
  have "fst ` set dv \<subseteq> fst ` set (indexDocument emb dv d)"
    by (auto simp: indexDocument_def keys_mapSet)
  with Cons.IH [of "indexDocument emb dv d"] show ?case by auto
qed

lemma refresh_keeps_keys:
  assumes "refresh loaded e = Inr e'"
  shows "fst ` set (documentVectors e) \<subseteq> fst ` set (documentVectors e')"
proof -
  from assms consider
      (same) "documentVectors e' = documentVectors e"
    | (indexed) emb docs where
        "documentVectors e' = foldl (indexDocument emb) (documentVectors e) docs"
    by (auto simp: refresh_def buildVectorIndex_def Let_def
             split: option.splits sum.splits if_splits)
  then show ?thesis
  proof cases
    case same
    then show ?thesis by simp
  next
    case indexed
    then show ?thesis using keys_index [of "documentVectors e"] by simp
  qed
qed

lemma cacheKeyed_engineIndexed: "cacheKeyed engineIndexed"
  by (simp add: cacheKeyed_def engineIndexed_fields)

lemma lengths_engineIndexed:
  "\<forall>d\<in>set (mapValues (documentVectors engineIndexed)). length (vector d) = dimension embIndexed"
  by (simp add: engineIndexed_fields mapValues_def length_embed)

lemma bucket_small:
  "bucket (newLocalEmbeddings (Some 2)) ''alpha'' = 0"
  "bucket (newLocalEmbeddings (Some 2)) ''gamma'' = 1"
  "bucket (newLocalEmbeddings (Some 2)) ''yellow'' = 0"
  by (simp_all add: bucket_def newLocalEmbeddings_def hashString_def hashStep_def)

lemma hashSign_small:
  "hashSign ''alpha'' = 1" "hashSign ''gamma'' = 1" "hashSign ''yellow'' = - 1"
  by (simp_all add: hashSign_def hashString_def hashStep_def)

lemma denseVector_small:
  "denseVector (newLocalEmbeddings (Some 2)) ''alpha'' = [1, 0]"
  "denseVector (newLocalEmbeddings (Some 2)) ''gamma'' = [0, 1]"
  "denseVector (newLocalEmbeddings (Some 2)) ''yellow'' = [- 1, 0]"
proof -
  have r: "replicate (dimension (newLocalEmbeddings (Some 2))) (0::real) = [0, 0]"
    by (simp add: newLocalEmbeddings_def numeral_2_eq_2)
  have i: "idfOrOne (newLocalEmbeddings (Some 2)) t = 1" for t
    by (simp add: idfOrOne_def newLocalEmbeddings_def mapGet_def)
  show "denseVector (newLocalEmbeddings (Some 2)) ''alpha'' = [1, 0]"
    "denseVector (newLocalEmbeddings (Some 2)) ''gamma'' = [0, 1]"
    "denseVector (newLocalEmbeddings (Some 2)) ''yellow'' = [- 1, 0]"
    by (simp_all add: denseVector_def tokenize_words termFrequency_def mapGet_def maxTf_def
        mapValues_def Let_def bucket_small hashSign_small i r)
qed

lemma embed_small:
  "embed (newLocalEmbeddings (Some 2)) ''alpha'' = [1, 0]"
  "embed (newLocalEmbeddings (Some 2)) ''gamma'' = [0, 1]"
  "embed (newLocalEmbeddings (Some 2)) ''yellow'' = [- 1, 0]"
  by (simp_all add: embed_def denseVector_small normalize_def)

lemma addDocument_small:
  "addDocument \<lparr>newId = Some ''d1'', newContent = ''alpha'', newMetadata = None\<rparr> engineSmall
     = Inr (''d1'', e1) \<Longrightarrow>
   addDocument \<lparr>newId = Some ''d2'', newContent = ''gamma'', newMetadata = None\<rparr> e1
     = Inr (''d2'', engineTwoDocs)"
  by (auto simp: addDocument_def engineSmall_def newRAGEngine_def newFileDataSource_def
      sourceAddDocument_def Let_def engineTwoDocs_def embed_small)

lemma engineTwoDocs_fields:
  "embeddings engineTwoDocs = Some (newLocalEmbeddings (Some 2))"
  "documentVectors engineTwoDocs =
     [(''d1'', \<lparr>id' = ''d1'', content = ''alpha'', metadata = [], vector = [1, 0]\<rparr>),
      (''d2'', \<lparr>id' = ''d2'', content = ''gamma'', metadata = [], vector = [0, 1]\<rparr>)]"
  "similarityThreshold engineTwoDocs = 3 / 10"
  "topK engineTwoDocs = 5"
  by (simp_all add: engineTwoDocs_def engineSmall_def newRAGEngine_def)

lemma ranked_yellow:
  "findSimilar (embed (newLocalEmbeddings (Some 2)) ''yellow'')
     (mapValues (documentVectors engineTwoDocs)) 2 = Inr [(''d2'', 0), (''d1'', - 1)]"
  by (simp add: embed_small engineTwoDocs_fields mapValues_def findSimilar_def
      cosineSimilarity_def sortBy_def byScoreDesc_def)

lemma ranked_alpha:
  "findSimilar (embed (newLocalEmbeddings (Some 2)) ''alpha'')
     (mapValues (documentVectors engineTwoDocs)) 2 = Inr [(''d1'', 1), (''d2'', 0)]"
  by (simp add: embed_small engineTwoDocs_fields mapValues_def findSimilar_def
      cosineSimilarity_def sortBy_def byScoreDesc_def)

lemma cacheKeyed_engineTwoDocs: "cacheKeyed engineTwoDocs"
  by (simp add: cacheKeyed_def engineTwoDocs_fields)

theorem retrieve_threshold_fallback_witness:
  "findSimilar (embed (newLocalEmbeddings (Some 2)) ''yellow'')
     (mapValues (documentVectors engineTwoDocs)) 2 = Inr [(''d2'', 0), (''d1'', - 1)] \<and>
   filter (\<lambda>p. snd p \<ge> similarityThreshold engineTwoDocs) [(''d2'', 0), (''d1'', - 1)] = [] \<and>
   map_sum id (map (\<lambda>r. (id' r, score r)))
     (retrieve searchNothing engineTwoDocs ''yellow'' (Some 1)) = Inr [(''d2'', 0)] \<and>
   findSimilar (embed (newLocalEmbeddings (Some 2)) ''alpha'')
     (mapValues (documentVectors engineTwoDocs)) 2 = Inr [(''d1'', 1), (''d2'', 0)] \<and>
   map_sum id (map (\<lambda>r. (id' r, score r)))
     (retrieve searchNothing engineTwoDocs ''alpha'' (Some 1)) = Inr [(''d1'', 1)] \<and>
   retrieve searchNothing engineTwoDocs ''alpha'' (Some 0) = Inr []"
proof -
  have ne: "documentVectors engineTwoDocs \<noteq> []" by (simp add: engineTwoDocs_fields)
  have len: "\<forall>d\<in>set (mapValues (documentVectors engineTwoDocs)).
      length (vector d) = dimension (newLocalEmbeddings (Some 2))"
    by (simp add: engineTwoDocs_fields mapValues_def newLocalEmbeddings_def)
  have k1: "(1::nat) = (case Some 1 of None \<Rightarrow> topK engineTwoDocs | Some k' \<Rightarrow> k')" by simp
  have k0: "(0::nat) = (case Some 0 of None \<Rightarrow> topK engineTwoDocs | Some k' \<Rightarrow> k')" by simp
  note th = retrieve_threshold_fallback [OF engineTwoDocs_fields(1) ne len cacheKeyed_engineTwoDocs]
  have thr: "filter (\<lambda>p. snd p \<ge> similarityThreshold engineTwoDocs) [(''d2'', 0), (''d1'', - 1)] = []"
    by (simp add: engineTwoDocs_fields)
  from th [OF k1, of "''yellow''" searchNothing] ranked_yellow
  obtain results where
    y: "retrieve searchNothing engineTwoDocs ''yellow'' (Some 1) = Inr results"
       "map (\<lambda>r. (id' r, score r)) results = [(''d2'', 0)]"
    by (auto simp: engineTwoDocs_fields)
  from th [OF k1, of "''alpha''" searchNothing] ranked_alpha
  obtain results' where
    a: "retrieve searchNothing engineTwoDocs ''alpha'' (Some 1) = Inr results'"
       "map (\<lambda>r. (id' r, score r)) results' = [(''d1'', 1)]"
    by (auto simp: engineTwoDocs_fields)
  from th [OF k0, of "''alpha''" searchNothing]
  have z: "retrieve searchNothing engineTwoDocs ''alpha'' (Some 0) = Inr []" by auto
  from ranked_yellow ranked_alpha thr y a z show ?thesis by simp
qed

text \<open>
  C2 as stated fails for \<open>topK = 0\<close>: the cache of \<open>engineIndexed\<close> holds one entry, and
  \<open>retrieve(query, 0)\<close> returns the empty list.
\<close>

theorem retrieve_topK_zero_counterexample:
  "documentVectors engineIndexed \<noteq> [] \<and> embeddings engineIndexed = Some embIndexed \<and>
   retrieve searchNothing engineIndexed ''alpha'' (Some 0) = Inr []"
proof -
  from retrieveByVector_char [OF cacheKeyed_engineIndexed
      lengths_engineIndexed, of 0 "''alpha''"]
  have "retrieveByVector engineIndexed embIndexed ''alpha'' 0 = Inr []" by auto
  then show ?thesis
    by (simp add: retrieve_def engineIndexed_fields mapSize_def)
qed

lemma cacheKeyed_engineRefreshed: "cacheKeyed engineRefreshed"
  using cacheKeyed_refresh [OF cacheKeyed_engineIndexed refresh_refreshed] .

lemma lengths_engineRefreshed:
  "\<forall>d\<in>set (mapValues (documentVectors engineRefreshed)).
     length (vector d) = dimension (buildVocabulary embIndexed [])"
  by (simp add: engineRefreshed_fields engineIndexed_fields mapValues_def length_embed
      dimension_buildVocabulary)

text \<open>
  C1. \<open>engineIndexed\<close> was initialised over one document. The document is deleted and
  \<open>refresh()\<close> runs: the source now counts 0 documents, \<open>getStats().documentCount\<close> is
  still 1, and \<open>retrieve\<close> still returns the id of the deleted document. \<open>refresh\<close>
  never removes a key from the cache (\<open>refresh_keeps_keys\<close>).
\<close>

theorem refresh_keeps_deleted_document:
  "initialize (Inr [docAlpha]) None engineFresh = Inr engineIndexed \<and>
   refresh (Inr []) engineIndexed = Inr engineRefreshed \<and>
   map_option getDocumentCount (dataSource engineRefreshed) = Some 0 \<and>
   statDocumentCount (getStats engineRefreshed) = 1 \<and>
   map_sum id (map id') (retrieve searchNothing engineRefreshed ''what is beta'' None)
     = Inr [''a.txt_chunk_0'']"
proof -
  let ?emb = "buildVocabulary embIndexed []"
  let ?pass = "\<lambda>p. snd p \<ge> similarityThreshold engineRefreshed"
  from retrieveByVector_char [OF cacheKeyed_engineRefreshed
      lengths_engineRefreshed, of 5 "''what is beta''"]
  obtain ranked results where
    r: "ranked = take (5 * 2) (sortBy byScoreDesc
                      (map (\<lambda>d. (id' d, dot (embed ?emb ''what is beta'') (vector d)))
                         (mapValues (documentVectors engineRefreshed))))"
       "retrieveByVector engineRefreshed ?emb ''what is beta'' 5 = Inr results"
       "map (\<lambda>r. (id' r, score r)) results =
             (if take 5 (filter ?pass ranked) = [] then take 5 ranked
              else take 5 (filter ?pass ranked))"
    by blast
  obtain s where ranked: "ranked = [(''a.txt_chunk_0'', s)]"
    by (simp add: r(1) engineRefreshed_fields engineIndexed_fields mapValues_def sortBy_def)
  have "map (\<lambda>r. (id' r, score r)) results = [(''a.txt_chunk_0'', s)]"
    unfolding r(3) ranked by (cases "?pass (''a.txt_chunk_0'', s)") simp_all
  then have "map fst (map (\<lambda>r. (id' r, score r)) results) = [''a.txt_chunk_0'']" by simp
  then have ids: "map id' results = [''a.txt_chunk_0'']" by (simp add: comp_def)
  have "retrieve searchNothing engineRefreshed ''what is beta'' None = Inr results"
    using r(2)
    by (simp add: retrieve_def engineRefreshed_fields engineIndexed_fields mapSize_def)
  with ids have "map_sum id (map id') (retrieve searchNothing engineRefreshed ''what is beta'' None)
     = Inr [''a.txt_chunk_0'']" by simp
  moreover have "map_option getDocumentCount (dataSource engineRefreshed) = Some 0"
    by (simp add: engineRefreshed_fields getDocumentCount_def)
  moreover have "statDocumentCount (getStats engineRefreshed) = 1"
    by (simp add: getStats_def engineRefreshed_fields engineIndexed_fields mapSize_def)
  ultimately show ?thesis
    using initialize_indexed refresh_refreshed by simp
qed

subsection \<open>\<open>embed\<close>: the weight of a term without an IDF entry\<close>

lemma idfOrOne_unseen: "mapGet (idf e) term = None \<Longrightarrow> idfOrOne e term = 1"
  by (simp add: idfOrOne_def)

lemma tokenize_hello: "tokenize ''hello'' = [''hello'']"
  by (simp add: tokenize_def splitWhitespace_def replaceNonWord_def toLowerCase_def
      toLowerChar_def isWordChar_def isSpace_def)

lemma hashString_hello: "hashString ''hello'' = 99162322"
  by (simp add: hashString_def hashStep_def)

text \<open>
  C3. On a new vectorizer (\<open>N = 0\<close>, no IDF entry) the text \<open>"hello"\<close> has the one
  token \<open>hello\<close>, with a non-negative hash. The loop that fills the dense vector adds
  \<open>sign * (freq / maxTf) * 1 = 1\<close> to its bucket; with the fallback \<open>ln(N + 2) = ln 2\<close> of
  the claim it would add less than 1.
\<close>

theorem embed_unseen_term_weight:
  "tokenize ''hello'' = [''hello''] \<and>
   mapGet (idf (newLocalEmbeddings None)) ''hello'' = None \<and>
   documentCount (newLocalEmbeddings None) = 0 \<and>
   hashSign ''hello'' = 1 \<and>
   denseVector (newLocalEmbeddings None) ''hello'' ! bucket (newLocalEmbeddings None) ''hello'' = 1 \<and>
   hashSign ''hello'' * (1 / 1) * ln (real (documentCount (newLocalEmbeddings None)) + 2) < 1"
proof -
  have b: "bucket (newLocalEmbeddings None) ''hello'' < 384"
    by (simp add: bucket_def newLocalEmbeddings_def)
  have s: "hashSign ''hello'' = 1"
    by (simp add: hashSign_def hashString_hello)
  have i: "idfOrOne (newLocalEmbeddings None) ''hello'' = 1"
    by (rule idfOrOne_unseen) (simp add: newLocalEmbeddings_def mapGet_def)
  have d: "dimension (newLocalEmbeddings None) = 384"
    by (simp add: newLocalEmbeddings_def)
  have v: "denseVector (newLocalEmbeddings None) ''hello'' !
           bucket (newLocalEmbeddings None) ''hello'' = 1"
    using b
    by (simp add: denseVector_def tokenize_hello termFrequency_def mapGet_def maxTf_def
        mapValues_def Let_def s i d)
  have l: "hashSign ''hello'' * (1 / 1) * ln (real (documentCount (newLocalEmbeddings None)) + 2) < 1"
    using ln_2_less_1 by (simp add: s newLocalEmbeddings_def)
  have n: "mapGet (idf (newLocalEmbeddings None)) ''hello'' = None"
    "documentCount (newLocalEmbeddings None) = 0"
    by (simp_all add: newLocalEmbeddings_def mapGet_def)
  from tokenize_hello n s v l show ?thesis by blast
qed

subsection \<open>\<open>buildVocabulary\<close>: what a second build leaves\<close>

lemma map_of_mapSet: "map_of (mapSet k v m) k' = (if k' = k then Some v else map_of m k')"
  by (induction m) auto

lemma distinct_mapSet: "distinct (map fst m) \<Longrightarrow> distinct (map fst (mapSet k v m))"
proof (induction m)
  case Nil
  then show ?case by simp
next
  case (Cons p m)
  then show ?case using keys_mapSet [of k v m] by (auto simp: image_iff)
qed

lemma newSet_acc:
  "set (foldl (\<lambda>s x. if x \<in> set s then s else s @ [x]) acc xs) = set acc \<union> set xs \<and>
   (distinct acc \<longrightarrow> distinct (foldl (\<lambda>s x. if x \<in> set s then s else s @ [x]) acc xs))"
  by (induction xs arbitrary: acc) auto

lemma set_newSet: "set (newSet xs) = set xs"
  using newSet_acc [of "[]" xs] by (simp add: newSet_def)

lemma distinct_newSet: "distinct (newSet xs)"
  using newSet_acc [of "[]" xs] by (simp add: newSet_def)

lemma countToken_fst:
  "map_of (fst (countToken st tok)) t =
     (if t = tok then Some (countOf (fst st) tok + 1) else map_of (fst st) t)"
  by (cases st) (simp add: countToken_def map_of_mapSet mapGet_def countOf_def)

lemma countToken_distinct:
  "distinct (map fst (fst st)) \<Longrightarrow> distinct (map fst (fst (countToken st tok)))"
  by (cases st) (simp add: countToken_def distinct_mapSet)

lemma countToken_keys:
  "fst ` set (snd (countToken st tok)) = insert tok (fst ` set (snd st))"
proof (cases st)
  case (Pair df vocab)
  show ?thesis
  proof (cases "mapHas vocab tok")
    case True
    then have "tok \<in> fst ` set vocab"
      by (simp add: mapHas_def mapGet_def map_of_eq_None_iff)
    with True Pair show ?thesis by (auto simp: countToken_def)
  next
    case False
    with Pair show ?thesis by (simp add: countToken_def keys_mapSet)
  qed
qed

lemma countToken_keeps:
  "map_of (snd st) t = Some v \<Longrightarrow> map_of (snd (countToken st tok)) t = Some v"
  by (cases st) (auto simp: countToken_def map_of_mapSet mapHas_def mapGet_def)

lemma countTokens_fst:
  "distinct toks \<Longrightarrow>
   map_of (fst (foldl countToken st toks)) t =
     (if t \<in> set toks then Some (countOf (fst st) t + 1) else map_of (fst st) t)"
proof (induction toks arbitrary: st)
  case Nil
  then show ?case by simp
next
  case (Cons tok toks)
  then have d: "distinct toks" and n: "tok \<notin> set toks" by simp_all
  show ?case
    using Cons.IH [OF d, of "countToken st tok"] n
    by (auto simp: countToken_fst countOf_def)
qed

lemma countTokens_distinct:
  "distinct (map fst (fst st)) \<Longrightarrow> distinct (map fst (fst (foldl countToken st toks)))"
  by (induction toks arbitrary: st) (simp_all add: countToken_distinct)

lemma countTokens_keys:
  "fst ` set (snd (foldl countToken st toks)) = fst ` set (snd st) \<union> set toks"
  by (induction toks arbitrary: st) (auto simp: countToken_keys)

lemma countTokens_keeps:
  "map_of (snd st) t = Some v \<Longrightarrow> map_of (snd (foldl countToken st toks)) t = Some v"
  by (induction toks arbitrary: st) (simp_all add: countToken_keeps)

lemma countDocument_fst:
  "map_of (fst (countDocument st d)) t =
     (if t \<in> set (tokenize d) then Some (countOf (fst st) t + 1) else map_of (fst st) t)"
  using countTokens_fst [OF distinct_newSet, of st "tokenize d" t]
  by (simp add: countDocument_def set_newSet)

lemma countDocuments_fst:
  "map_of (fst (foldl countDocument st docs)) t =
     (if docFrequency docs t = 0 then map_of (fst st) t
      else Some (countOf (fst st) t + docFrequency docs t))"
proof (induction docs arbitrary: st)
  case Nil
  then show ?case by (simp add: docFrequency_def)
next
  case (Cons d docs)
  show ?case
    using Cons.IH [of "countDocument st d"]
    by (auto simp: countDocument_fst docFrequency_def countOf_def)
qed

lemma countDocuments_distinct:
  "distinct (map fst (fst st)) \<Longrightarrow> distinct (map fst (fst (foldl countDocument st docs)))"
  by (induction docs arbitrary: st) (simp_all add: countDocument_def countTokens_distinct)

lemma countDocuments_keys:
  "fst ` set (snd (foldl countDocument st docs)) = fst ` set (snd st) \<union> terms docs"
  by (induction docs arbitrary: st)
     (auto simp: terms_def countDocument_def countTokens_keys set_newSet)

lemma countDocuments_keeps:
  "map_of (snd st) t = Some v \<Longrightarrow> map_of (snd (foldl countDocument st docs)) t = Some v"
  by (induction docs arbitrary: st) (simp_all add: countDocument_def countTokens_keeps)

lemma docFrequency_zero: "docFrequency docs t = 0 \<longleftrightarrow> t \<notin> terms docs"
  by (auto simp: docFrequency_def terms_def filter_empty_conv)

lemma setIdf_lookup:
  "distinct (map fst df) \<Longrightarrow>
   map_of (foldl (setIdf n) idf0 df) t =
     (case map_of df t of Some c \<Rightarrow> Some (idfWeight n c) | None \<Rightarrow> map_of idf0 t)"
proof (induction df arbitrary: idf0)
  case Nil
  then show ?case by simp
next
  case (Cons p df)
  then have d: "distinct (map fst df)" and n: "fst p \<notin> fst ` set df" by auto
  from n have none: "map_of df (fst p) = None" by (simp add: map_of_eq_None_iff)
  show ?case
    using Cons.IH [OF d, of "setIdf n idf0 p"] none
    by (cases p) (auto simp: setIdf_def map_of_mapSet split: option.splits)
qed

lemma setIdf_keys: "fst ` set (foldl (setIdf n) idf0 df) = fst ` set idf0 \<union> fst ` set df"
  by (induction df arbitrary: idf0) (auto simp: setIdf_def keys_mapSet)

lemma docFreq_keys:
  "fst ` set (fst (foldl countDocument ([], vocab) docs)) = terms docs"
proof -
  have "k \<in> fst ` set (fst (foldl countDocument ([], vocab) docs)) \<longleftrightarrow> k \<in> terms docs" for k
  proof -
    have "k \<in> fst ` set (fst (foldl countDocument ([], vocab) docs)) \<longleftrightarrow>
          map_of (fst (foldl countDocument ([], vocab) docs)) k \<noteq> None"
      by (simp add: map_of_eq_None_iff)
    also have "\<dots> \<longleftrightarrow> k \<in> terms docs"
      by (simp add: countDocuments_fst docFrequency_zero)
    finally show ?thesis .
  qed
  then show ?thesis by blast
qed

text \<open>
  What one call of \<open>buildVocabulary\<close> does to a vectorizer in any state: \<open>documentCount\<close>
  is overwritten and the document frequencies are counted over the new documents only;
  the two maps are written with \<open>set\<close> and never emptied.
\<close>

lemma buildVocabulary_effect:
  "documentCount (buildVocabulary e docs) = length docs \<and>
   set (mapKeys (vocabulary (buildVocabulary e docs))) = set (mapKeys (vocabulary e)) \<union> terms docs \<and>
   set (mapKeys (idf (buildVocabulary e docs))) = set (mapKeys (idf e)) \<union> terms docs \<and>
   (\<forall>t\<in>terms docs.
      mapGet (idf (buildVocabulary e docs)) t
        = Some (idfWeight (length docs) (docFrequency docs t))) \<and>
   (\<forall>t. t \<notin> terms docs \<longrightarrow>
      mapGet (idf (buildVocabulary e docs)) t = mapGet (idf e) t) \<and>
   (\<forall>t. mapHas (vocabulary e) t \<longrightarrow>
      mapGet (vocabulary (buildVocabulary e docs)) t = mapGet (vocabulary e) t)"
proof -
  let ?st = "foldl countDocument ([], vocabulary e) docs"
  have dist: "distinct (map fst (fst ?st))"
    by (rule countDocuments_distinct) simp
  have df: "map_of (fst ?st) t =
      (if t \<in> terms docs then Some (docFrequency docs t) else None)" for t
    using countDocuments_fst [of "([], vocabulary e)" docs t]
    by (simp add: docFrequency_zero countOf_def)
  have idf': "map_of (idf (buildVocabulary e docs)) t =
      (if t \<in> terms docs then Some (idfWeight (length docs) (docFrequency docs t))
       else map_of (idf e) t)" for t
    using setIdf_lookup [OF dist, of "length docs" "idf e" t]
    by (simp add: buildVocabulary_def Let_def df)
  have c1: "documentCount (buildVocabulary e docs) = length docs"
    by (simp add: buildVocabulary_def Let_def)
  have c2: "set (mapKeys (vocabulary (buildVocabulary e docs))) =
      set (mapKeys (vocabulary e)) \<union> terms docs"
    using countDocuments_keys [of "([], vocabulary e)" docs]
    by (simp add: buildVocabulary_def Let_def mapKeys_def)
  have c3: "set (mapKeys (idf (buildVocabulary e docs))) = set (mapKeys (idf e)) \<union> terms docs"
    by (simp add: buildVocabulary_def Let_def mapKeys_def setIdf_keys docFreq_keys)
  have c4: "\<forall>t\<in>terms docs. mapGet (idf (buildVocabulary e docs)) t
        = Some (idfWeight (length docs) (docFrequency docs t))"
    by (simp add: mapGet_def idf')
  have c5: "\<forall>t. t \<notin> terms docs \<longrightarrow>
      mapGet (idf (buildVocabulary e docs)) t = mapGet (idf e) t"
    by (simp add: mapGet_def idf')
  have c6: "\<forall>t. mapHas (vocabulary e) t \<longrightarrow>
      mapGet (vocabulary (buildVocabulary e docs)) t = mapGet (vocabulary e) t"
  proof (intro allI impI)
    fix t assume "mapHas (vocabulary e) t"
    then obtain v where v: "map_of (vocabulary e) t = Some v"
      by (auto simp: mapHas_def mapGet_def)
    then have "map_of (snd ?st) t = Some v"
      using countDocuments_keeps [of "([], vocabulary e)" t v docs] by simp
    with v show "mapGet (vocabulary (buildVocabulary e docs)) t = mapGet (vocabulary e) t"
      by (simp add: buildVocabulary_def Let_def mapGet_def)
  qed
  from c1 c2 c3 c4 c5 c6 show ?thesis by blast
qed

lemma tokenize_alpha_beta: "tokenize ''alpha beta'' = [''alpha'', ''beta'']"
  by (simp add: tokenize_def splitWhitespace_def replaceNonWord_def toLowerCase_def
      toLowerChar_def isWordChar_def isSpace_def)

lemma tokenize_alpha: "tokenize ''alpha'' = [''alpha'']"
  by (simp add: tokenize_def splitWhitespace_def replaceNonWord_def toLowerCase_def
      toLowerChar_def isWordChar_def isSpace_def)

lemma tokenize_gamma_delta: "tokenize ''gamma delta'' = [''gamma'', ''delta'']"
  by (simp add: tokenize_def splitWhitespace_def replaceNonWord_def toLowerCase_def
      toLowerChar_def isWordChar_def isSpace_def)

lemma embFirstBuild_maps:
  "vocabulary embFirstBuild = [(''alpha'', 0), (''beta'', 1)]"
  "idf embFirstBuild = [(''alpha'', idfWeight 2 2), (''beta'', idfWeight 2 1)]"
  "documentCount embFirstBuild = 2"
  by (simp_all add: embFirstBuild_def buildVocabulary_def newLocalEmbeddings_def Let_def
      countDocument_def tokenize_alpha_beta tokenize_alpha newSet_def countToken_def mapGet_def
      mapHas_def mapSize_def setIdf_def numeral_2_eq_2)

lemma embSecondBuild_maps:
  "vocabulary embSecondBuild = [(''alpha'', 0), (''beta'', 1), (''gamma'', 2), (''delta'', 3)]"
  "idf embSecondBuild =
     [(''alpha'', idfWeight 2 2), (''beta'', idfWeight 2 1),
      (''gamma'', idfWeight 1 1), (''delta'', idfWeight 1 1)]"
  "documentCount embSecondBuild = 1"
  by (simp_all add: embSecondBuild_def buildVocabulary_def embFirstBuild_maps Let_def
      countDocument_def tokenize_gamma_delta newSet_def countToken_def mapGet_def mapHas_def
      mapSize_def setIdf_def)

text \<open>
  C4. A vectorizer built over \<open>["alpha beta", "alpha"]\<close> is built again over
  \<open>["gamma delta"]\<close>. \<open>documentCount\<close> becomes 1 and \<open>gamma\<close> and \<open>delta\<close> get the
  weight of the new corpus, but \<open>alpha\<close> and \<open>beta\<close> stay in both maps: the prior
  vocabulary is not replaced, and \<open>beta\<close> keeps the weight \<open>ln(3 / 2) + 1\<close> that was
  computed for the earlier corpus of 2 documents, beside weights computed for 1.
\<close>

theorem buildVocabulary_keeps_old_terms:
  "documentCount embFirstBuild = 2 \<and>
   idf embFirstBuild = [(''alpha'', idfWeight 2 2), (''beta'', idfWeight 2 1)] \<and>
   concat (map tokenize [''gamma delta'']) = [''gamma'', ''delta''] \<and>
   documentCount (buildVocabulary embFirstBuild [''gamma delta'']) = 1 \<and>
   mapKeys (vocabulary (buildVocabulary embFirstBuild [''gamma delta'']))
     = [''alpha'', ''beta'', ''gamma'', ''delta''] \<and>
   idf (buildVocabulary embFirstBuild [''gamma delta''])
     = [(''alpha'', idfWeight 2 2), (''beta'', idfWeight 2 1),
        (''gamma'', idfWeight 1 1), (''delta'', idfWeight 1 1)] \<and>
   idfWeight 1 1 = 1 \<and> 1 < idfWeight 2 1"
proof -
  have w: "idfWeight 1 1 = 1" "1 < idfWeight 2 1"
    by (simp_all add: idfWeight_def)
  show ?thesis
    using embSecondBuild_maps w
    by (simp add: embSecondBuild_def tokenize_gamma_delta mapKeys_def embFirstBuild_maps)
qed

subsection \<open>\<open>chunkText\<close>: the overlaps for which the loop does end\<close>

text \<open>
  When \<open>0 \<le> chunkOverlap < chunkSize\<close> and also \<open>2 * chunkOverlap \<le> chunkSize + 2\<close>, every
  iteration moves the window start forward, and \<open>chunkText\<close> returns after at most
  \<open>text.length\<close> iterations. The default configuration (1000 and 200) is of this kind.
\<close>

lemma windowEnd_progress:
  assumes "0 \<le> start" and "0 \<le> chunkOverlap ds" and "chunkOverlap ds < chunkSize ds"
    and "2 * chunkOverlap ds \<le> chunkSize ds + 2"
  shows "start < windowEnd ds text start - chunkOverlap ds"
proof (cases "start + chunkSize ds < int (length text)")
  case False
  then have "windowEnd ds text start = start + chunkSize ds"
    by (simp add: windowEnd_def Let_def)
  with assms show ?thesis by simp
next
  case True
  have cs: "0 \<le> chunkSize ds" using assms by simp
  have w: "windowEnd ds text start =
        findBreak text start (chunkSize ds) (start + chunkSize ds) breakPoints"
    using True by (simp add: windowEnd_def Let_def)
  from findBreak_priority [OF assms(1) cs, of breakPoints "text"] show ?thesis
  proof
    assume "\<exists>pre bp post p. breakPoints = pre @ bp # post \<and>
        candidate text start (chunkSize ds) bp p \<and>
        findBreak text start (chunkSize ds) (start + chunkSize ds) breakPoints
          = int p + int (length bp) \<and>
        (\<forall>q. candidate text start (chunkSize ds) bp q \<longrightarrow> q \<le> p) \<and>
        (\<forall>bp'\<in>set pre. \<forall>q. \<not> candidate text start (chunkSize ds) bp' q)"
    then obtain pre bp post p where
      h: "breakPoints = pre @ bp # post" "candidate text start (chunkSize ds) bp p"
         "findBreak text start (chunkSize ds) (start + chunkSize ds) breakPoints
            = int p + int (length bp)"
      by blast
    have "bp \<in> set (pre @ bp # post)" by simp
    then have "bp \<in> set breakPoints" by (simp only: h(1))
    then have len: "1 \<le> int (length bp)" by (auto simp: breakPoints_def)
    from h(2) have "real_of_int (int p) > real_of_int start + real_of_int (chunkSize ds) / 2"
      by (simp add: candidate_def)
    then have "real_of_int (2 * int p) > real_of_int (2 * start + chunkSize ds)"
      by (simp add: field_simps)
    then have "2 * int p > 2 * start + chunkSize ds" by (simp only: of_int_less_iff)
    with len assms(4) w h(3) show ?thesis by linarith
  next
    assume "(\<forall>bp\<in>set breakPoints. \<forall>q. \<not> candidate text start (chunkSize ds) bp q) \<and>
        findBreak text start (chunkSize ds) (start + chunkSize ds) breakPoints
          = start + chunkSize ds"
    with w assms show ?thesis by simp
  qed
qed

lemma chunkLoop_returns:
  assumes "0 \<le> chunkOverlap ds" and "chunkOverlap ds < chunkSize ds"
    and "2 * chunkOverlap ds \<le> chunkSize ds + 2"
  shows "0 \<le> start \<Longrightarrow> int (length text) - start \<le> int n \<Longrightarrow>
         \<exists>r. chunkLoop n ds text start chunks = Some r"
proof (induction n arbitrary: start chunks)
  case 0
  then show ?case by simp
next
  case (Suc n)
  show ?case
  proof (cases "start < int (length text)")
    case False
    then show ?thesis by simp
  next
    case True
    let ?next = "windowEnd ds text start - chunkOverlap ds"
    from windowEnd_progress [OF Suc.prems(1) assms, of "text"] have p: "start < ?next" .
    then have "0 \<le> ?next" "int (length text) - ?next \<le> int n"
      using Suc.prems by simp_all
    from Suc.IH [OF this] True show ?thesis by (simp add: Let_def)
  qed
qed

lemma chunkText_returns:
  assumes "0 \<le> chunkOverlap ds" and "chunkOverlap ds < chunkSize ds"
    and "2 * chunkOverlap ds \<le> chunkSize ds + 2"
  shows "\<exists>chunks. chunkText (length text) ds text = Some chunks"
proof -
  from chunkLoop_returns [OF assms, of 0 "text" "length text" "[]"] obtain r where
    "chunkLoop (length text) ds text 0 [] = Some r" by auto
  then show ?thesis by (simp add: chunkText_def)
qed

lemma chunkText_default_returns:
  "\<exists>chunks. chunkText (length text) (newFileDataSource None None) text = Some chunks"
  by (rule chunkText_returns) (simp_all add: newFileDataSource_def)

end
